theory Spec2Isabelle
  imports Main
begin

section \<open>JavaScript values\<close>

text \<open>
  The values that travel through \<^verbatim>\<open>BackEnd/server.js\<close>: request bodies, upstream
  response bodies and the bodies handed to \<^verbatim>\<open>res.json\<close>. Numbers are kept as integers;
  the server only ever tests a number for being zero. An object is the list of its own
  properties, the first binding of a key being the one in force.
\<close>

datatype json =
    JUndefined
  | JNull
  | JBool bool
  | JNum int
  | JStr string
  | JArr "json list"
  | JObj "(string \<times> json) list"

text \<open>JavaScript truthiness, as tested by \<^verbatim>\<open>!x\<close>.\<close>

fun truthy :: "json \<Rightarrow> bool" where
  "truthy JUndefined = False"
| "truthy JNull = False"
| "truthy (JBool b) = b"
| "truthy (JNum n) = (n \<noteq> 0)"
| "truthy (JStr s) = (s \<noteq> [])"
| "truthy (JArr xs) = True"
| "truthy (JObj kvs) = True"

text \<open>
  The response of an HTTP exchange as axios attaches it to an error
  (\<^verbatim>\<open>error.response.status\<close>, \<^verbatim>\<open>error.response.data\<close>), and a JavaScript error object with
  the three properties the server reads: \<^verbatim>\<open>name\<close>, \<^verbatim>\<open>message\<close> and \<^verbatim>\<open>response\<close>.
\<close>

record http_response =
  status :: nat
  data :: json

record js_error =
  name :: string
  message :: string
  response :: "http_response option"

text \<open>\<^verbatim>\<open>new Error(msg)\<close>: no \<^verbatim>\<open>response\<close> property.\<close>

definition Error :: "string \<Rightarrow> js_error" where
  "Error msg = \<lparr>name = ''Error'', message = msg, response = None\<rparr>"

text \<open>
  The error raised by the engine on reading a property of \<^verbatim>\<open>undefined\<close> or \<^verbatim>\<open>null\<close>
  (the wording of its message is the engine's).
\<close>

definition TypeError :: js_error where
  "TypeError = \<lparr>name = ''TypeError'', message = ''Cannot read properties of undefined'',
     response = None\<rparr>"

text \<open>\<^verbatim>\<open>error.response?.status\<close>\<close>

definition status_of :: "js_error \<Rightarrow> nat option" where
  "status_of error = (case response error of None \<Rightarrow> None | Some r \<Rightarrow> Some (status r))"

text \<open>
  Property access \<^verbatim>\<open>v.k\<close> and \<^verbatim>\<open>v[0]\<close> (the key \<^verbatim>\<open>0\<close>), for the keys the server reads
  (\<^verbatim>\<open>prompt\<close>, \<^verbatim>\<open>candidates\<close>, \<^verbatim>\<open>content\<close>, \<^verbatim>\<open>parts\<close>, \<^verbatim>\<open>text\<close>, \<^verbatim>\<open>choices\<close>, \<^verbatim>\<open>message\<close>, \<^verbatim>\<open>0\<close>):
  none of them is inherited from a prototype. Reading from \<^verbatim>\<open>undefined\<close> or \<^verbatim>\<open>null\<close> throws.
\<close>

fun get_prop :: "json \<Rightarrow> string \<Rightarrow> js_error + json" where
  "get_prop JUndefined k = Inl TypeError"
| "get_prop JNull k = Inl TypeError"
| "get_prop (JObj kvs) k = Inr (case map_of kvs k of None \<Rightarrow> JUndefined | Some v \<Rightarrow> v)"
| "get_prop (JArr xs) k =
     Inr (if k = ''0'' then (case xs of [] \<Rightarrow> JUndefined | x # _ \<Rightarrow> x) else JUndefined)"
| "get_prop (JStr s) k =
     Inr (if k = ''0'' then (case s of [] \<Rightarrow> JUndefined | c # _ \<Rightarrow> JStr [c]) else JUndefined)"
| "get_prop (JBool b) k = Inr JUndefined"
| "get_prop (JNum n) k = Inr JUndefined"

text \<open>A chain of property reads \<^verbatim>\<open>v.k1.k2...\<close>, stopping at the first one that throws.\<close>

fun get_path :: "json \<Rightarrow> string list \<Rightarrow> js_error + json" where
  "get_path v [] = Inr v"
| "get_path v (k # ks) = (case get_prop v k of Inl e \<Rightarrow> Inl e | Inr w \<Rightarrow> get_path w ks)"

section \<open>Configuration (server.js, lines 12-15)\<close>

definition RATE_LIMIT_DELAY :: int where
  "RATE_LIMIT_DELAY = 5000"

definition MAX_RETRIES :: nat where
  "MAX_RETRIES = 3"

definition INITIAL_RETRY_DELAY :: nat where
  "INITIAL_RETRY_DELAY = 1000"

section \<open>The upstream call: generateTextFromGemini (server.js, lines 90-168)\<close>

text \<open>
  What \<^verbatim>\<open>await axios.post(url, requestBody, {timeout: 30000})\<close> gives: the promise resolves
  with a response whose parsed body is \<^verbatim>\<open>response.data\<close>, or it rejects with an error that
  carries the upstream response when there was one (a status outside 2xx) and none
  otherwise (network failure, timeout).
\<close>

datatype axios_result = Resolved json | Rejected js_error

text \<open>
  The effects of the function on the outside world, in the order it performs them:
  posting a request built from the prompt, and arming a timer for a number of
  milliseconds.
\<close>

datatype effect = Post json | SetTimeout nat

text \<open>\<^verbatim>\<open>!process.env.GEMINI_API_KEY\<close>: the variable is unset or the empty string.\<close>

definition no_api_key :: "(string \<rightharpoonup> string) \<Rightarrow> bool" where
  "no_api_key env = (case env ''GEMINI_API_KEY'' of None \<Rightarrow> True | Some k \<Rightarrow> k = [])"

text \<open>
  Lines 136-146: the check of the response format and the object that is returned,
  \<^verbatim>\<open>{choices: [{message: {content: response.data.candidates[0].content.parts[0].text}}]}\<close>.
  Everything here runs inside the \<^verbatim>\<open>try\<close> block, so a thrown error reaches the
  \<^verbatim>\<open>catch\<close> of line 147 like a rejected request does.
\<close>

definition invalid_format :: js_error where
  "invalid_format = Error ''Invalid response format from Gemini API''"

definition read_response :: "json \<Rightarrow> js_error + json" where
  "read_response d =
     (case get_prop d ''candidates'' of
        Inl e \<Rightarrow> Inl e
      | Inr candidates \<Rightarrow>
          if \<not> truthy candidates then Inl invalid_format
          else (case get_prop candidates ''0'' of
            Inl e \<Rightarrow> Inl e
          | Inr c0 \<Rightarrow>
              if \<not> truthy c0 then Inl invalid_format
              else (case get_prop c0 ''content'' of
                Inl e \<Rightarrow> Inl e
              | Inr c \<Rightarrow>
                  if \<not> truthy c then Inl invalid_format
                  else (case get_path c [''parts'', ''0'', ''text''] of
                    Inl e \<Rightarrow> Inl e
                  | Inr text \<Rightarrow>
                      Inr (JObj [(''choices'',
                        JArr [JObj [(''message'', JObj [(''content'', text)])]])])))))"

text \<open>Lines 132-146: one attempt, given what the request of this attempt comes back with.\<close>

definition attempt :: "axios_result \<Rightarrow> js_error + json" where
  "attempt r = (case r of Rejected e \<Rightarrow> Inl e | Resolved d \<Rightarrow> read_response d)"

definition rate_limit_exceeded :: js_error where
  "rate_limit_exceeded = Error ''Rate limit exceeded. Please try again later.''"

text \<open>
  The function itself. \<open>env\<close> is \<^verbatim>\<open>process.env\<close>; \<open>up k\<close> is what the upstream answers to the
  request made with retry count \<open>k\<close>. The result is the list of effects performed and
  either the error thrown (\<open>Inl\<close>) or the object returned (\<open>Inr\<close>).
\<close>

function generateTextFromGemini ::
  "(string \<rightharpoonup> string) \<Rightarrow> (nat \<Rightarrow> axios_result) \<Rightarrow> json \<Rightarrow> nat \<Rightarrow> effect list \<times> (js_error + json)"
where
  "generateTextFromGemini env up userPrompt retryCount =
     (if no_api_key env then ([], Inl (Error ''GEMINI_API_KEY is not set in environment variables''))
      else (case attempt (up retryCount) of
        Inr result \<Rightarrow> ([Post userPrompt], Inr result)
      | Inl error \<Rightarrow>
          if status_of error = Some 429 \<and> retryCount < MAX_RETRIES then
            (case generateTextFromGemini env up userPrompt (retryCount + 1) of
               (effects, r) \<Rightarrow>
                 (Post userPrompt # SetTimeout (INITIAL_RETRY_DELAY * 2 ^ retryCount) # effects, r))
          else if status_of error = Some 429 then ([Post userPrompt], Inl rate_limit_exceeded)
          else ([Post userPrompt], Inl error)))"
  by pat_completeness auto
termination
  by (relation "measure (\<lambda>(env, up, userPrompt, retryCount). MAX_RETRIES - retryCount)") auto

declare generateTextFromGemini.simps [simp del]

section \<open>The route POST /generate-text1 (server.js, lines 171-240)\<close>

text \<open>\<^verbatim>\<open>res.status(code).json(body)\<close>; \<^verbatim>\<open>res.json(body)\<close> answers with status 200.\<close>

record reply =
  code :: nat
  body :: json

text \<open>
  A document of the model \<^verbatim>\<open>Ai\<close> (lines 81-87): \<^verbatim>\<open>role\<close>, \<^verbatim>\<open>content\<close> (the value kept for
  the path after the cast of its schema type) and \<^verbatim>\<open>intime\<close>, which defaults to
  \<^verbatim>\<open>Date.now\<close> at construction (milliseconds).
\<close>

record ai =
  role :: string
  content :: json
  intime :: int

text \<open>\<^verbatim>\<open>n.toString()\<close> for an integer \<open>n\<close> (below \<^verbatim>\<open>1e21\<close> in magnitude): its decimal digits.\<close>

function digits :: "nat \<Rightarrow> string" where
  "digits n =
     (if n < 10 then [''0123456789'' ! n]
      else digits (n div 10) @ [''0123456789'' ! (n mod 10)])"
  by pat_completeness auto
termination
  by (relation "measure (\<lambda>n. n)") auto

declare digits.simps [simp del]

definition number_toString :: "int \<Rightarrow> string" where
  "number_toString n = (if n < 0 then CHR ''-'' # digits (nat (- n)) else digits (nat n))"

text \<open>
  The schema declares \<^verbatim>\<open>content: String\<close> (line 83), so the value handed to \<^verbatim>\<open>new Ai\<close> goes
  through the cast of the library's string type: \<^verbatim>\<open>undefined\<close> and \<^verbatim>\<open>null\<close> are kept as
  they are (the path is then not set), a string is kept, a number or a boolean becomes its
  \<^verbatim>\<open>toString()\<close>, an object with a non-empty string \<^verbatim>\<open>_id\<close> becomes that string, and any other
  object or an array cannot be cast (\<open>None\<close>).
\<close>

fun cast_String :: "json \<Rightarrow> json option" where
  "cast_String JUndefined = Some JUndefined"
| "cast_String JNull = Some JNull"
| "cast_String (JStr s) = Some (JStr s)"
| "cast_String (JNum n) = Some (JStr (number_toString n))"
| "cast_String (JBool b) = Some (JStr (if b then ''true'' else ''false''))"
| "cast_String (JArr xs) = None"
| "cast_String (JObj kvs) =
     (case map_of kvs ''_id'' of
        Some (JStr i) \<Rightarrow> if i \<noteq> [] then Some (JStr i) else None
      | _ \<Rightarrow> None)"

text \<open>
  The error \<^verbatim>\<open>save()\<close> rejects with when the content could not be cast (the wording of
  its message is the library's).
\<close>

definition cast_failed :: js_error where
  "cast_failed = \<lparr>name = ''ValidationError'',
     message = ''Ai validation failed: content: Cast to string failed'', response = None\<rparr>"

text \<open>
  \<^verbatim>\<open>new Ai({role: r, content: c})\<close> at instant \<open>now\<close>: the document, or, when the content
  cannot be cast, the error that its \<^verbatim>\<open>save()\<close> will reject with before anything is
  written.
\<close>

definition new_Ai :: "string \<Rightarrow> json \<Rightarrow> int \<Rightarrow> js_error + ai" where
  "new_Ai r c now =
     (case cast_String c of
        None \<Rightarrow> Inl cast_failed
      | Some c' \<Rightarrow> Inr \<lparr>role = r, content = c', intime = now\<rparr>)"

text \<open>
  What \<^verbatim>\<open>await doc.save()\<close> gives for a valid document: the document is written and the
  call took so many milliseconds, or the call throws and nothing is written.
\<close>

datatype save_result = Saved nat | SaveFailed js_error

text \<open>Lines 209-239: the \<^verbatim>\<open>catch\<close> block of the route.\<close>

definition error_reply :: "js_error \<Rightarrow> reply" where
  "error_reply error =
     (if status_of error = Some 429 then
        \<lparr>code = 429, body = JObj [(''error'', JStr ''Rate limit exceeded''),
           (''details'', JStr ''Please wait a moment and try again''),
           (''retryAfter'', JNum (RATE_LIMIT_DELAY div 1000))]\<rparr>
      else (case response error of
        Some r \<Rightarrow>
          \<lparr>code = status r, body = JObj [(''error'', JStr ''Gemini API Error''),
             (''details'', data r)]\<rparr>
      | None \<Rightarrow>
          if name error = ''MongoError'' then
            \<lparr>code = 500, body = JObj [(''error'', JStr ''Database Error''),
               (''details'', JStr (message error))]\<rparr>
          else
            \<lparr>code = 500, body = JObj [(''error'', JStr ''Error generating response''),
               (''details'', JStr (message error))]\<rparr>))"

text \<open>
  Lines 187-208: the rest of the \<^verbatim>\<open>try\<close> block once the queued promise has settled.
  \<open>now\<close> is \<^verbatim>\<open>Date.now()\<close> when the route resumes, \<open>db 0\<close> and \<open>db 1\<close> are what the two
  calls of \<^verbatim>\<open>save\<close> give when their document is valid, \<open>docs\<close> is the collection. The
  result is the collection afterwards and the reply sent. The reply carries the prompt
  and the generated text as the route holds them, not as they are stored; its \<^verbatim>\<open>time\<close>
  member is the instant \<^verbatim>\<open>userMessage.intime\<close>.
\<close>

definition after_queue ::
  "(nat \<Rightarrow> save_result) \<Rightarrow> int \<Rightarrow> ai list \<Rightarrow> json \<Rightarrow> js_error + json \<Rightarrow> ai list \<times> reply"
where
  "after_queue db now docs prompt settled =
     (case settled of
        Inl error \<Rightarrow> (docs, error_reply error)
      | Inr completion \<Rightarrow>
          (case new_Ai ''user'' prompt now of
             Inl error \<Rightarrow> (docs, error_reply error)
           | Inr userMessage \<Rightarrow>
               (case db 0 of
                  SaveFailed error \<Rightarrow> (docs, error_reply error)
                | Saved took \<Rightarrow>
                    (case get_path completion [''choices'', ''0'', ''message'', ''content''] of
                       Inl error \<Rightarrow> (docs @ [userMessage], error_reply error)
                     | Inr text \<Rightarrow>
                         (case new_Ai ''Alan-Ai'' text (now + int took) of
                            Inl error \<Rightarrow> (docs @ [userMessage], error_reply error)
                          | Inr geminiResponseMessage \<Rightarrow>
                              (case db 1 of
                                 SaveFailed error \<Rightarrow>
                                   (docs @ [userMessage], error_reply error)
                               | Saved took' \<Rightarrow>
                                   (docs @ [userMessage, geminiResponseMessage],
                                    \<lparr>code = 200, body = JObj [(''userInput'', prompt),
                                       (''time'', JNum (intime userMessage)),
                                       (''gpt3Response'', text)]\<rparr>)))))))"

text \<open>
  What a request to the route ends in: a reply, or, when reading \<^verbatim>\<open>req.body\<close> throws at
  line 174 (outside the \<^verbatim>\<open>try\<close> block), the rejection of the route's promise.
\<close>

datatype answer = Replied reply | Threw js_error

text \<open>
  The route for one request, from line 172 to its reply. The promise of lines 182-185
  settles with what \<^verbatim>\<open>processQueue\<close> passes on (lines 36-40): the value returned by
  \<^verbatim>\<open>generateTextFromGemini(prompt)\<close>, or the error it throws. The result is the effects on
  the upstream, the collection afterwards and the answer.
\<close>

definition post_generate_text1 ::
  "(string \<rightharpoonup> string) \<Rightarrow> (nat \<Rightarrow> axios_result) \<Rightarrow> (nat \<Rightarrow> save_result) \<Rightarrow> int \<Rightarrow> ai list \<Rightarrow> json
     \<Rightarrow> effect list \<times> ai list \<times> answer"
where
  "post_generate_text1 env up db now docs req_body =
     (case get_prop req_body ''prompt'' of
        Inl error \<Rightarrow> ([], docs, Threw error)
      | Inr prompt \<Rightarrow>
          if \<not> truthy prompt then
            ([], docs, Replied \<lparr>code = 400, body = JObj [(''error'', JStr ''Prompt is required'')]\<rparr>)
          else (case generateTextFromGemini env up prompt 0 of
            (effects, settled) \<Rightarrow>
              (case after_queue db now docs prompt settled of
                 (docs', r) \<Rightarrow> (effects, docs', Replied r))))"

section \<open>The request queue: processQueue (server.js, lines 17-47)\<close>

text \<open>
  An entry of \<^verbatim>\<open>requestQueue\<close>, \<^verbatim>\<open>{prompt, resolve, reject}\<close>: the two callbacks belong to
  the promise of one request, which is named here by its arrival number \<open>rid\<close>.
\<close>

record job =
  rid :: nat
  prompt :: json

text \<open>
  An invocation of \<^verbatim>\<open>processQueue\<close> that is suspended at an \<^verbatim>\<open>await\<close>: at line 33, until
  the timer is due, or at line 36, in \<^verbatim>\<open>generateTextFromGemini\<close>, which was entered at the
  given instant. The server keeps a list of them: nothing in this type says that there is
  at most one.
\<close>

datatype worker = Throttled job int | InFlight job int

fun job_of :: "worker \<Rightarrow> job" where
  "job_of (Throttled j due) = j"
| "job_of (InFlight j since) = j"

text \<open>
  What the outside world does to the request made with a given retry count: what axios
  gives for it, how many milliseconds the exchange took, and by how many milliseconds
  the timer armed after it fired late.
\<close>

record exchange =
  result :: axios_result
  took :: nat
  late :: nat

text \<open>
  One request to the upstream as it happened: for which arrival, with which retry count,
  when it was sent, when it came back, and whether it came back with a well-formed
  response (so that \<^verbatim>\<open>generateTextFromGemini\<close> returned).
\<close>

record call =
  request :: nat
  retry :: nat
  sent :: int
  finished :: int
  ok :: bool

text \<open>
  The instants of the effects of one run of \<^verbatim>\<open>generateTextFromGemini\<close> entered at \<open>t\<close>:
  a request takes the time of its exchange, a timer fires after its delay or later. The
  result is the calls made and the instant at which the function settles.
\<close>

fun timeline :: "nat \<Rightarrow> (nat \<Rightarrow> exchange) \<Rightarrow> nat \<Rightarrow> int \<Rightarrow> effect list \<Rightarrow> call list \<times> int" where
  "timeline r x k t [] = ([], t)"
| "timeline r x k t (Post p # es) =
     (case timeline r x k (t + int (took (x k))) es of
        (cs, t') \<Rightarrow>
          (\<lparr>request = r, retry = k, sent = t, finished = t + int (took (x k)),
            ok = (case attempt (result (x k)) of Inl e \<Rightarrow> False | Inr v \<Rightarrow> True)\<rparr> # cs, t'))"
| "timeline r x k t (SetTimeout d # es) = timeline r x (Suc k) (t + int d + int (late (x k))) es"

text \<open>
  The module state of lines 18-20 (\<^verbatim>\<open>lastRequestTime\<close>, \<^verbatim>\<open>isProcessing\<close>,
  \<^verbatim>\<open>requestQueue\<close>), the clock read by \<^verbatim>\<open>Date.now()\<close>, the suspended invocations of
  \<^verbatim>\<open>processQueue\<close>, the number of requests received, the calls made to the upstream so
  far, and the promises settled so far (\<^verbatim>\<open>resolve(response)\<close> as \<open>Inr\<close>,
  \<^verbatim>\<open>reject(error)\<close> as \<open>Inl\<close>) in the order of their settling.
\<close>

record server =
  clock :: int
  lastRequestTime :: int
  isProcessing :: bool
  requestQueue :: "job list"
  workers :: "worker list"
  arrivals :: nat
  calls :: "call list"
  outcomes :: "(nat \<times> (js_error + json)) list"

text \<open>The server when the module has been loaded at instant \<open>t0\<close> (milliseconds).\<close>

definition boot :: "nat \<Rightarrow> server" where
  "boot t0 = \<lparr>clock = int t0, lastRequestTime = 0, isProcessing = False, requestQueue = [],
     workers = [], arrivals = 0, calls = [], outcomes = []\<rparr>"

text \<open>
  Lines 23-36: \<^verbatim>\<open>processQueue\<close> from its entry to its first \<^verbatim>\<open>await\<close>, which is the
  timer of line 33 when the last recorded completion is less than \<^verbatim>\<open>RATE_LIMIT_DELAY\<close>
  ago, and the upstream call of line 36 otherwise.
\<close>

definition processQueue :: "server \<Rightarrow> server" where
  "processQueue s =
     (if isProcessing s \<or> requestQueue s = [] then s
      else (case requestQueue s of
        [] \<Rightarrow> s
      | j # rest \<Rightarrow>
          (let s1 = s\<lparr>isProcessing := True, requestQueue := rest\<rparr>;
               now = clock s1;
               timeSinceLastRequest = now - lastRequestTime s1
           in if timeSinceLastRequest < RATE_LIMIT_DELAY then
                s1\<lparr>workers := workers s1 @
                  [Throttled j (now + (RATE_LIMIT_DELAY - timeSinceLastRequest))]\<rparr>
              else s1\<lparr>workers := workers s1 @ [InFlight j now]\<rparr>)))"

text \<open>
  Lines 36-46: the invocation at position \<open>i\<close>, which entered \<^verbatim>\<open>generateTextFromGemini\<close>
  at \<open>since\<close> for job \<open>j\<close>, resumes when that call has settled: it records the completion
  time on success, settles the promise of the request, and in the \<^verbatim>\<open>finally\<close> block
  clears the flag and starts on the next entry of the queue.
\<close>

definition settle ::
  "(string \<rightharpoonup> string) \<Rightarrow> (nat \<Rightarrow> exchange) \<Rightarrow> nat \<Rightarrow> job \<Rightarrow> int \<Rightarrow> server \<Rightarrow> server"
where
  "settle env x i j since s =
     (case generateTextFromGemini env (\<lambda>k. result (x k)) (prompt j) 0 of
        (effects, r) \<Rightarrow>
          (case timeline (rid j) x 0 since effects of
             (cs, settled_at) \<Rightarrow>
               (let now = max (clock s) settled_at;
                    s1 = s\<lparr>clock := now, calls := calls s @ cs\<rparr>;
                    s2 = (case r of Inr v \<Rightarrow> s1\<lparr>lastRequestTime := now\<rparr> | Inl e \<Rightarrow> s1);
                    s3 = s2\<lparr>outcomes := outcomes s2 @ [(rid j, r)]\<rparr>;
                    s4 = s3\<lparr>isProcessing := False,
                      workers := take i (workers s3) @ drop (Suc i) (workers s3)\<rparr>
                in if requestQueue s4 \<noteq> [] then processQueue s4 else s4)))"

text \<open>
  What can happen next on the event loop: time passes; a request arrives at the route
  with some body; the timer of the suspended invocation at a position fires; the
  upstream call of the suspended invocation at a position settles, the outside world
  having behaved as given. Two things are taken for granted about time: the clock read
  by \<^verbatim>\<open>Date.now()\<close> never runs backwards (every duration is a natural number of
  milliseconds), and a timer never fires before it is due.
\<close>

datatype event =
    Tick nat
  | Request json
  | TimerFires nat
  | Settles nat "nat \<Rightarrow> exchange"

text \<open>
  One event. A request runs the route from line 172 to the \<^verbatim>\<open>await\<close> of line 182
  (a body without a usable prompt never reaches the queue). A timer does not fire before
  it is due. An event that names no suspended invocation in the right state changes
  nothing.
\<close>

fun step :: "(string \<rightharpoonup> string) \<Rightarrow> event \<Rightarrow> server \<Rightarrow> server" where
  "step env (Tick dt) s = s\<lparr>clock := clock s + int dt\<rparr>"
| "step env (Request req_body) s =
     (let s0 = s\<lparr>arrivals := Suc (arrivals s)\<rparr> in
      case get_prop req_body ''prompt'' of
        Inl e \<Rightarrow> s0
      | Inr p \<Rightarrow>
          if \<not> truthy p then s0
          else processQueue
            (s0\<lparr>requestQueue := requestQueue s0 @ [\<lparr>rid = arrivals s, prompt = p\<rparr>]\<rparr>))"
| "step env (TimerFires i) s =
     (if i < length (workers s) then
        (case workers s ! i of
           Throttled j due \<Rightarrow>
             (let now = max (clock s) due
              in s\<lparr>clock := now, workers := (workers s)[i := InFlight j now]\<rparr>)
         | InFlight j since \<Rightarrow> s)
      else s)"
| "step env (Settles i x) s =
     (if i < length (workers s) then
        (case workers s ! i of
           Throttled j due \<Rightarrow> s
         | InFlight j since \<Rightarrow> settle env x i j since s)
      else s)"

fun run :: "(string \<rightharpoonup> string) \<Rightarrow> event list \<Rightarrow> server \<Rightarrow> server" where
  "run env [] s = s"
| "run env (e # es) s = run env es (step env e s)"

section \<open>Properties of runs\<close>

text \<open>The request came back with HTTP status 429.\<close>

definition is_429 :: "axios_result \<Rightarrow> bool" where
  "is_429 r = (case r of Rejected e \<Rightarrow> status_of e = Some 429 | Resolved d \<Rightarrow> False)"

text \<open>
  The number of retries made by a run that starts with retry count \<open>from\<close>: the number of
  requests in a row, below the cap, that come back with status 429.
\<close>

definition retries :: "(nat \<Rightarrow> axios_result) \<Rightarrow> nat \<Rightarrow> nat" where
  "retries up from = length (takeWhile is_429 (map up [from..<MAX_RETRIES]))"

text \<open>\<open>n\<close> rounds of a request followed by its backoff timer, from retry count \<open>from\<close>.\<close>

definition backoff :: "json \<Rightarrow> nat \<Rightarrow> nat \<Rightarrow> effect list" where
  "backoff p from n =
     concat (map (\<lambda>k. [Post p, SetTimeout (INITIAL_RETRY_DELAY * 2 ^ k)]) [from..<from + n])"

fun delays :: "effect list \<Rightarrow> nat list" where
  "delays [] = []"
| "delays (Post p # es) = delays es"
| "delays (SetTimeout d # es) = d # delays es"

fun posts :: "effect list \<Rightarrow> json list" where
  "posts [] = []"
| "posts (Post p # es) = p # posts es"
| "posts (SetTimeout d # es) = posts es"

text \<open>Any two consecutive calls are at least \<^verbatim>\<open>RATE_LIMIT_DELAY\<close> apart.\<close>

definition spaced :: "call list \<Rightarrow> bool" where
  "spaced cs = successively (\<lambda>c d. finished c + RATE_LIMIT_DELAY \<le> sent d) cs"

text \<open>
  Every call that is sent after a call for which \<^verbatim>\<open>generateTextFromGemini\<close> returned is
  sent at least \<^verbatim>\<open>RATE_LIMIT_DELAY\<close> after that call has finished.
\<close>

definition throttled :: "call list \<Rightarrow> bool" where
  "throttled cs = sorted_wrt (\<lambda>c d. ok c \<longrightarrow> finished c + RATE_LIMIT_DELAY \<le> sent d) cs"

text \<open>No call is sent before every earlier call has finished.\<close>

definition sequential :: "call list \<Rightarrow> bool" where
  "sequential cs = sorted_wrt (\<lambda>c d. finished c \<le> sent d) cs"

text \<open>
  The arrival numbers in the order of service: the requests whose promise has settled,
  then those being processed, then those waiting in the queue.
\<close>

definition service_order :: "server \<Rightarrow> nat list" where
  "service_order s =
     map fst (outcomes s) @ map (\<lambda>w. rid (job_of w)) (workers s) @ map rid (requestQueue s)"

text \<open>
  The arrival numbers of the requests that reach the queue, in the order of arrival,
  among the events of a run that starts with \<open>n\<close> requests already received.
\<close>

fun accepted :: "nat \<Rightarrow> event list \<Rightarrow> nat list" where
  "accepted n [] = []"
| "accepted n (Request req_body # es) =
     (case get_prop req_body ''prompt'' of
        Inl e \<Rightarrow> accepted (Suc n) es
      | Inr p \<Rightarrow> if truthy p then n # accepted (Suc n) es else accepted (Suc n) es)"
| "accepted n (Tick dt # es) = accepted n es"
| "accepted n (TimerFires i # es) = accepted n es"
| "accepted n (Settles i x # es) = accepted n es"

text \<open>
  What holds of a suspended invocation, given the last recorded completion \<open>t\<close> and the
  calls made so far: its timer is due \<^verbatim>\<open>RATE_LIMIT_DELAY\<close> after \<open>t\<close>, or it entered the
  upstream call no earlier than that and after every call made so far had finished.
\<close>

fun admissible :: "int \<Rightarrow> call list \<Rightarrow> worker \<Rightarrow> bool" where
  "admissible t cs (Throttled j due) = (due = t + RATE_LIMIT_DELAY)"
| "admissible t cs (InFlight j since) =
     (t + RATE_LIMIT_DELAY \<le> since \<and> (\<forall>c\<in>set cs. finished c \<le> since))"

text \<open>The invariant of the server that the properties of its runs follow from.\<close>

definition sound :: "server \<Rightarrow> bool" where
  "sound s \<longleftrightarrow>
     length (workers s) \<le> 1 \<and>
     isProcessing s = (workers s \<noteq> []) \<and>
     (\<forall>c\<in>set (calls s). finished c \<le> clock s) \<and>
     (\<forall>c\<in>set (calls s). ok c \<longrightarrow> finished c \<le> lastRequestTime s) \<and>
     (\<forall>w\<in>set (workers s). admissible (lastRequestTime s) (calls s) w) \<and>
     throttled (calls s) \<and> sequential (calls s)"

text \<open>The requests that have reached the queue and whose promise has not settled yet.\<close>

definition pending :: "server \<Rightarrow> nat" where
  "pending s = length (workers s) + length (requestQueue s)"

text \<open>
  A schedule on which nothing arrives any more: round after round, the timer of the
  suspended invocation fires if it waits for one, and its upstream call settles, the
  outside world behaving in round \<open>i\<close> as the \<open>i\<close>-th element says.
\<close>

definition drain :: "(nat \<Rightarrow> exchange) list \<Rightarrow> event list" where
  "drain xs = concat (map (\<lambda>x. [TimerFires 0, Settles 0 x]) xs)"

section \<open>Concrete inputs\<close>

definition configured :: "string \<rightharpoonup> string" where
  "configured = [''GEMINI_API_KEY'' \<mapsto> ''secret'']"

definition too_many_requests :: axios_result where
  "too_many_requests = Rejected \<lparr>name = ''AxiosError'',
     message = ''Request failed with status code 429'',
     response = Some \<lparr>status = 429, data = JObj [(''error'', JStr ''quota'')]\<rparr>\<rparr>"

definition unavailable :: axios_result where
  "unavailable = Rejected \<lparr>name = ''AxiosError'',
     message = ''Request failed with status code 503'',
     response = Some \<lparr>status = 503, data = JStr ''overloaded''\<rparr>\<rparr>"

definition says :: "json \<Rightarrow> axios_result" where
  "says text = Resolved (JObj [(''candidates'',
     JArr [JObj [(''content'', JObj [(''parts'', JArr [JObj [(''text'', text)]])])]])])"

definition textless :: axios_result where
  "textless = Resolved (JObj [(''candidates'',
     JArr [JObj [(''content'', JObj [(''parts'', JArr [JObj []])])]])])"

definition always :: "axios_result \<Rightarrow> nat \<Rightarrow> axios_result" where
  "always r k = r"

definition once_429_then :: "axios_result \<Rightarrow> nat \<Rightarrow> axios_result" where
  "once_429_then r k = (if k = 0 then too_many_requests else r)"

definition saves :: "nat \<Rightarrow> save_result" where
  "saves k = Saved 7"

definition second_save_fails :: "nat \<Rightarrow> save_result" where
  "second_save_fails k =
     (if k = 0 then Saved 7
      else SaveFailed \<lparr>name = ''MongoNetworkError'', message = ''connection closed'',
        response = None\<rparr>)"

definition hello :: json where
  "hello = JObj [(''prompt'', JStr ''hello'')]"

definition promptly :: "(nat \<Rightarrow> axios_result) \<Rightarrow> nat \<Rightarrow> exchange" where
  "promptly up k = \<lparr>result = up k, took = 0, late = 0\<rparr>"

definition taking :: "nat \<Rightarrow> (nat \<Rightarrow> axios_result) \<Rightarrow> nat \<Rightarrow> exchange" where
  "taking ms up k = \<lparr>result = up k, took = ms, late = 0\<rparr>"

section \<open>The retry loop\<close>

text \<open>Errors thrown by the server's own reads carry no upstream response.\<close>

lemma get_prop_throws: "get_prop v k = Inl e \<Longrightarrow> e = TypeError"
  by (cases v) auto

lemma get_path_throws: "get_path v ks = Inl e \<Longrightarrow> e = TypeError"
  by (induction ks arbitrary: v) (auto split: sum.splits dest: get_prop_throws)

lemma read_response_throws:
  "read_response d = Inl e \<Longrightarrow> e = TypeError \<or> e = invalid_format"
  unfolding read_response_def
  by (auto split: sum.splits if_splits dest: get_prop_throws get_path_throws)

lemma read_response_no_status: "read_response d = Inl e \<Longrightarrow> response e = None"
  by (drule read_response_throws) (auto simp: TypeError_def invalid_format_def Error_def)

lemma attempt_429: "(\<exists>e. attempt r = Inl e \<and> status_of e = Some 429) = is_429 r"
  by (cases r) (auto simp: attempt_def is_429_def status_of_def dest: read_response_no_status)

lemma retries_step:
  "rc < MAX_RETRIES \<Longrightarrow>
     retries up rc = (if is_429 (up rc) then Suc (retries up (Suc rc)) else 0)"
  by (simp add: retries_def upt_conv_Cons)

lemma retries_done: "MAX_RETRIES \<le> rc \<Longrightarrow> retries up rc = 0"
  by (simp add: retries_def)

lemma backoff_0: "backoff p rc 0 = []"
  by (simp add: backoff_def)

lemma backoff_Suc:
  "backoff p rc (Suc n) =
     Post p # SetTimeout (INITIAL_RETRY_DELAY * 2 ^ rc) # backoff p (Suc rc) n"
  by (simp add: backoff_def upt_conv_Cons)

lemma generateTextFromGemini_eq:
  assumes key: "\<not> no_api_key env"
  shows "generateTextFromGemini env up p rc =
    (backoff p rc (retries up rc) @ [Post p],
     if is_429 (up (rc + retries up rc)) then Inl rate_limit_exceeded
     else attempt (up (rc + retries up rc)))"
  using key
proof (induction env up p rc rule: generateTextFromGemini.induct)
  case (1 env up p rc)
  note key = \<open>\<not> no_api_key env\<close>
  show ?case
  proof (cases "is_429 (up rc)")
    case False
    then have r0: "retries up rc = 0"
      by (cases "rc < MAX_RETRIES") (simp_all add: retries_step retries_done)
    from False have "\<And>e. attempt (up rc) = Inl e \<Longrightarrow> status_of e \<noteq> Some 429"
      using attempt_429 [of "up rc"] by auto
    then show ?thesis
      using key r0 False
      by (subst generateTextFromGemini.simps) (auto simp: backoff_0 split: sum.splits)
  next
    case True
    then obtain e where e: "attempt (up rc) = Inl e" "status_of e = Some 429"
      using attempt_429 [of "up rc"] by auto
    show ?thesis
    proof (cases "rc < MAX_RETRIES")
      case below: True
      have "generateTextFromGemini env up p (rc + 1) =
        (backoff p (rc + 1) (retries up (rc + 1)) @ [Post p],
         if is_429 (up (rc + 1 + retries up (rc + 1))) then Inl rate_limit_exceeded
         else attempt (up (rc + 1 + retries up (rc + 1))))"
        using "1.IH" [OF key e(1) _ key] e(2) below by simp
      then show ?thesis
        using key e below True
        by (subst generateTextFromGemini.simps) (simp add: retries_step backoff_Suc)
    next
      case False
      then have "retries up rc = 0"
        by (simp add: retries_done)
      then show ?thesis
        using key e False True
        by (subst generateTextFromGemini.simps) (simp add: backoff_0)
    qed
  qed
qed

lemma retries_le: "retries up rc \<le> MAX_RETRIES - rc"
  unfolding retries_def
  by (rule order_trans [OF length_takeWhile_le]) simp

lemma retries_429: "k < retries up rc \<Longrightarrow> is_429 (up (rc + k))"
proof -
  assume k: "k < retries up rc"
  let ?xs = "map up [rc..<MAX_RETRIES]"
  from k have "k < length (takeWhile is_429 ?xs)" by (simp add: retries_def)
  then have "is_429 (takeWhile is_429 ?xs ! k)" by (rule nth_mem [THEN set_takeWhileD, THEN conjunct2])
  moreover have "takeWhile is_429 ?xs ! k = ?xs ! k" using k by (simp add: retries_def takeWhile_nth)
  moreover have "k < MAX_RETRIES - rc" using k retries_le [of up rc] by simp
  ultimately show ?thesis by simp
qed

lemma retries_eq:
  assumes "rc + k \<le> MAX_RETRIES" "\<forall>j<k. is_429 (up (rc + j))"
    "rc + k < MAX_RETRIES \<Longrightarrow> \<not> is_429 (up (rc + k))"
  shows "retries up rc = k"
  using assms
proof (induction k arbitrary: rc)
  case 0
  then show ?case by (cases "rc < MAX_RETRIES") (simp_all add: retries_step retries_done)
next
  case (Suc k)
  have "retries up (Suc rc) = k"
    using Suc.prems by (intro Suc.IH) (auto dest: spec [of _ "Suc _"])
  moreover have "is_429 (up rc)" using Suc.prems(2) by (auto dest: spec [of _ 0])
  ultimately show ?case using Suc.prems(1) by (simp add: retries_step)
qed

lemma delays_backoff:
  "delays (backoff p rc n @ [Post p]) =
     map (\<lambda>k. INITIAL_RETRY_DELAY * 2 ^ k) [rc..<rc + n]"
  by (induction n arbitrary: rc) (simp_all add: backoff_0 backoff_Suc upt_conv_Cons)

lemma posts_backoff: "posts (backoff p rc n @ [Post p]) = replicate (Suc n) p"
  by (induction n arbitrary: rc) (simp_all add: backoff_0 backoff_Suc)

text \<open>
  An error that leaves \<^verbatim>\<open>generateTextFromGemini\<close> never carries status 429: a 429 below
  the cap is retried, and at the cap it is replaced by a fresh \<^verbatim>\<open>Error\<close> (line 163).
\<close>

lemma upstream_error_never_429:
  "generateTextFromGemini env up p rc = (effects, Inl e) \<Longrightarrow> status_of e \<noteq> Some 429"
proof (cases "no_api_key env")
  case True
  assume "generateTextFromGemini env up p rc = (effects, Inl e)"
  with True show ?thesis
    by (subst (asm) generateTextFromGemini.simps) (auto simp: Error_def status_of_def)
next
  case False
  assume "generateTextFromGemini env up p rc = (effects, Inl e)"
  then have *: "(if is_429 (up (rc + retries up rc)) then Inl rate_limit_exceeded
     else attempt (up (rc + retries up rc))) = Inl e"
    using generateTextFromGemini_eq [OF False, of up p rc] by simp
  show ?thesis
  proof (cases "is_429 (up (rc + retries up rc))")
    case True
    with * show ?thesis by (auto simp: rate_limit_exceeded_def Error_def status_of_def)
  next
    case False
    with * attempt_429 [of "up (rc + retries up rc)"] show ?thesis by auto
  qed
qed

lemma all_429_retries: "\<forall>k\<le>MAX_RETRIES. is_429 (up k) \<Longrightarrow> retries up 0 = MAX_RETRIES"
  by (rule retries_eq) auto

lemma backoff_3:
  "backoff p 0 3 = [Post p, SetTimeout 1000, Post p, SetTimeout 2000, Post p, SetTimeout 4000]"
  by (simp add: backoff_def INITIAL_RETRY_DELAY_def upt_conv_Cons)

section \<open>Claims about the retry loop\<close>

text \<open>
  C2. With the API key set, for every prompt and every behaviour of the upstream,
  \<^verbatim>\<open>generateTextFromGemini\<close> posts the same prompt once more after each 429 that comes
  back below the cap, waiting \<^verbatim>\<open>INITIAL_RETRY_DELAY * 2 ^ retryCount\<close> before each retry, that
  is 1000, 2000 and 4000 ms before retries 1, 2 and 3; it makes at most
  \<^verbatim>\<open>MAX_RETRIES = 3\<close> retries; and when the first request and all three retries come back
  with 429 it stops there and throws the rate-limit error.
\<close>

theorem retry_delays_double:
  assumes "\<not> no_api_key env"
  shows "generateTextFromGemini env up p 0 =
      (backoff p 0 (retries up 0) @ [Post p],
       if is_429 (up (retries up 0)) then Inl rate_limit_exceeded
       else attempt (up (retries up 0)))
    \<and> retries up 0 \<le> MAX_RETRIES
    \<and> (\<forall>k<retries up 0. is_429 (up k))
    \<and> posts (fst (generateTextFromGemini env up p 0)) = replicate (Suc (retries up 0)) p
    \<and> delays (fst (generateTextFromGemini env up p 0)) = take (retries up 0) [1000, 2000, 4000]
    \<and> ((\<forall>k\<le>MAX_RETRIES. is_429 (up k)) \<longrightarrow>
         generateTextFromGemini env up p 0 =
           ([Post p, SetTimeout 1000, Post p, SetTimeout 2000, Post p, SetTimeout 4000, Post p],
            Inl rate_limit_exceeded))"
proof -
  note eq = generateTextFromGemini_eq [OF assms, of up p 0, simplified]
  have le: "retries up 0 \<le> MAX_RETRIES"
    using retries_le [of up 0] by simp
  have d: "map (\<lambda>k. INITIAL_RETRY_DELAY * 2 ^ k) [0..<retries up 0] =
      take (retries up 0) [1000, 2000, 4000]"
  proof -
    have m: "[1000, 2000, 4000] = map (\<lambda>k. INITIAL_RETRY_DELAY * 2 ^ k) [0..<3]"
      by (simp add: INITIAL_RETRY_DELAY_def upt_conv_Cons)
    have "take (retries up 0) [1000, 2000, 4000] =
        map (\<lambda>k. INITIAL_RETRY_DELAY * 2 ^ k) (take (retries up 0) [0..<3])"
      by (simp only: m take_map)
    also have "take (retries up 0) [0..<3] = [0..<retries up 0]"
      using le by (simp add: MAX_RETRIES_def min_def)
    finally show ?thesis by simp
  qed
  have all: "generateTextFromGemini env up p 0 =
           ([Post p, SetTimeout 1000, Post p, SetTimeout 2000, Post p, SetTimeout 4000, Post p],
            Inl rate_limit_exceeded)" if a: "\<forall>k\<le>MAX_RETRIES. is_429 (up k)"
  proof -
    have "retries up 0 = 3" using all_429_retries [OF a] by (simp add: MAX_RETRIES_def)
    moreover have "is_429 (up 3)" using a by (simp add: MAX_RETRIES_def)
    ultimately show ?thesis using eq by (simp add: backoff_3)
  qed
  show ?thesis
    using eq le d all retries_429 [of _ up 0]
    by (simp add: posts_backoff delays_backoff)
qed

theorem retry_delays_double_witness:
  "generateTextFromGemini configured (always too_many_requests) (JStr ''hello'') 0 =
     ([Post (JStr ''hello''), SetTimeout 1000, Post (JStr ''hello''), SetTimeout 2000,
       Post (JStr ''hello''), SetTimeout 4000, Post (JStr ''hello'')],
      Inl rate_limit_exceeded)"
proof -
  have key: "\<not> no_api_key configured"
    by (simp add: no_api_key_def configured_def)
  have all: "\<forall>k\<le>MAX_RETRIES. is_429 (always too_many_requests k)"
    by (simp add: always_def too_many_requests_def is_429_def status_of_def)
  show ?thesis
    using retry_delays_double [OF key, of "always too_many_requests" "JStr ''hello''"] all by blast
qed

section \<open>The route, step by step\<close>

text \<open>
  The object returned by \<^verbatim>\<open>generateTextFromGemini\<close> always has the shape the route reads
  at lines 199 and 207, and no reply of the \<^verbatim>\<open>catch\<close> block looks like the reply of line 204.
\<close>

lemma read_response_shape:
  "read_response d = Inr v \<Longrightarrow>
     \<exists>text. v = JObj [(''choices'', JArr [JObj [(''message'', JObj [(''content'', text)])]])]"
  unfolding read_response_def
  by (auto split: sum.splits if_splits)

lemma attempt_shape:
  "attempt r = Inr v \<Longrightarrow>
     \<exists>text. v = JObj [(''choices'', JArr [JObj [(''message'', JObj [(''content'', text)])]])]"
  by (cases r) (auto simp: attempt_def dest: read_response_shape)

lemma generateTextFromGemini_shape:
  assumes "generateTextFromGemini env up p rc = (effects, Inr v)"
  shows "\<exists>text. v = JObj [(''choices'', JArr [JObj [(''message'', JObj [(''content'', text)])]])]"
proof (cases "no_api_key env")
  case True
  with assms show ?thesis
    by (subst (asm) generateTextFromGemini.simps) simp
next
  case False
  from assms generateTextFromGemini_eq [OF False, of up p rc]
  have "attempt (up (rc + retries up rc)) = Inr v"
    by (auto split: if_splits)
  then show ?thesis by (rule attempt_shape)
qed

lemma content_of_returned:
  "get_path (JObj [(''choices'', JArr [JObj [(''message'', JObj [(''content'', text)])]])])
     [''choices'', ''0'', ''message'', ''content''] = Inr text"
  by simp

lemma error_reply_body:
  "\<exists>x rest. body (error_reply e) = JObj ((''error'', x) # rest)"
  by (auto simp: error_reply_def split: option.splits)

lemma error_reply_not_success:
  "error_reply e \<noteq> \<lparr>code = c, body = JObj ((''userInput'', q) # rest)\<rparr>"
  using error_reply_body [of e] by (auto dest: arg_cong [of _ _ body])

lemma route_unfold:
  assumes "get_prop req_body ''prompt'' = Inr p" "truthy p"
  shows "post_generate_text1 env up db now docs req_body =
    (fst (generateTextFromGemini env up p 0),
     fst (after_queue db now docs p (snd (generateTextFromGemini env up p 0))),
     Replied (snd (after_queue db now docs p (snd (generateTextFromGemini env up p 0)))))"
  using assms by (simp add: post_generate_text1_def split: prod.splits)

lemma after_queue_error: "after_queue db now docs p (Inl e) = (docs, error_reply e)"
  by (simp add: after_queue_def)

lemma cast_String_text:
  "cast_String v = Some c \<Longrightarrow>
     (\<exists>s. c = JStr s) \<or> (v = JUndefined \<or> v = JNull) \<and> c = v"
  by (cases v) (auto split: option.splits json.splits if_splits)

lemma cast_String_truthy: "cast_String v = Some c \<Longrightarrow> truthy v \<Longrightarrow> \<exists>s. c = JStr s"
  by (drule cast_String_text) auto

lemma cast_String_examples:
  "cast_String (JNum 5) = Some (JStr ''5'')"
  "cast_String (JNum (- 42)) = Some (JStr ''-42'')"
  "cast_String (JBool True) = Some (JStr ''true'')"
  "cast_String (JObj [(''a'', JNum 1)]) = None"
  "cast_String (JArr [JStr ''hello'']) = None"
  by (simp_all add: number_toString_def digits.simps [of 5] digits.simps [of 42]
      digits.simps [of 4])

lemma after_queue_returned:
  "after_queue db now docs p
      (Inr (JObj [(''choices'', JArr [JObj [(''message'', JObj [(''content'', g)])]])])) =
    (case cast_String p of
       None \<Rightarrow> (docs, error_reply cast_failed)
     | Some c \<Rightarrow>
        (case db 0 of
           SaveFailed e \<Rightarrow> (docs, error_reply e)
         | Saved t \<Rightarrow>
            (case cast_String g of
               None \<Rightarrow>
                 (docs @ [\<lparr>role = ''user'', content = c, intime = now\<rparr>],
                  error_reply cast_failed)
             | Some c' \<Rightarrow>
                (case db 1 of
                   SaveFailed e \<Rightarrow>
                     (docs @ [\<lparr>role = ''user'', content = c, intime = now\<rparr>], error_reply e)
                 | Saved t' \<Rightarrow>
                     (docs @ [\<lparr>role = ''user'', content = c, intime = now\<rparr>,
                        \<lparr>role = ''Alan-Ai'', content = c', intime = now + int t\<rparr>],
                      \<lparr>code = 200, body = JObj [(''userInput'', p), (''time'', JNum now),
                         (''gpt3Response'', g)]\<rparr>)))))"
  by (simp add: after_queue_def new_Ai_def split: save_result.splits option.splits)

lemma configured_key: "\<not> no_api_key configured"
  by (simp add: no_api_key_def configured_def)

lemma hello_prompt: "get_prop hello ''prompt'' = Inr (JStr ''hello'')"
  by (simp add: hello_def)

section \<open>Claims about the route\<close>

text \<open>
  C1. The claim is that a request whose upstream call meets 429 on the first attempt and
  on every retry is answered with status 429 and a rate-limit body carrying
  \<^verbatim>\<open>retryAfter\<close>. The route does have that branch (lines 217-222), but the error that
  reaches it is the fresh \<^verbatim>\<open>Error\<close> of line 163, which has no \<^verbatim>\<open>response\<close>: with the API key
  set and a usable prompt, every such request is answered by the last branch
  (lines 233-237), with status 500 and the generic body, and nothing is stored.
\<close>

theorem rate_limited_request_gets_500:
  assumes "\<not> no_api_key env" "get_prop req_body ''prompt'' = Inr p" "truthy p"
    "\<forall>k\<le>MAX_RETRIES. is_429 (up k)"
  shows "post_generate_text1 env up db now docs req_body =
    ([Post p, SetTimeout 1000, Post p, SetTimeout 2000, Post p, SetTimeout 4000, Post p],
     docs,
     Replied \<lparr>code = 500, body = JObj [(''error'', JStr ''Error generating response''),
       (''details'', JStr ''Rate limit exceeded. Please try again later.'')]\<rparr>)"
proof -
  have r: "retries up 0 = 3" "is_429 (up 3)"
    using all_429_retries [OF assms(4)] assms(4) by (simp_all add: MAX_RETRIES_def)
  have "generateTextFromGemini env up p 0 = (backoff p 0 3 @ [Post p], Inl rate_limit_exceeded)"
    using generateTextFromGemini_eq [OF assms(1), of up p 0] r by simp
  moreover have "error_reply rate_limit_exceeded =
      \<lparr>code = 500, body = JObj [(''error'', JStr ''Error generating response''),
       (''details'', JStr ''Rate limit exceeded. Please try again later.'')]\<rparr>"
    by (simp add: error_reply_def rate_limit_exceeded_def Error_def status_of_def)
  ultimately show ?thesis
    by (simp add: route_unfold [OF assms(2,3)] after_queue_error backoff_3)
qed

theorem rate_limited_request_gets_500_witness:
  "post_generate_text1 configured (always too_many_requests) saves 0 [] hello =
    ([Post (JStr ''hello''), SetTimeout 1000, Post (JStr ''hello''), SetTimeout 2000,
      Post (JStr ''hello''), SetTimeout 4000, Post (JStr ''hello'')],
     [],
     Replied \<lparr>code = 500, body = JObj [(''error'', JStr ''Error generating response''),
       (''details'', JStr ''Rate limit exceeded. Please try again later.'')]\<rparr>)"
proof -
  have "\<forall>k\<le>MAX_RETRIES. is_429 (always too_many_requests k)"
    by (simp add: always_def too_many_requests_def is_429_def status_of_def)
  then show ?thesis
    using rate_limited_request_gets_500
      [OF configured_key hello_prompt, of "always too_many_requests" saves 0 "[]"]
    by simp
qed

text \<open>
  C6. A request whose body has no usable prompt (the property is missing, the empty
  string, or any other falsy value) is answered with status 400 and an error body; no
  request is made to the upstream, nothing is stored, and on the server nothing but the
  count of arrivals changes: the queue, the flag and the suspended invocations are as
  before.
\<close>

theorem falsy_prompt_rejected:
  assumes "get_prop req_body ''prompt'' = Inr p" "\<not> truthy p"
  shows "post_generate_text1 env up db now docs req_body =
      ([], docs, Replied \<lparr>code = 400, body = JObj [(''error'', JStr ''Prompt is required'')]\<rparr>)
    \<and> step env (Request req_body) s = s\<lparr>arrivals := Suc (arrivals s)\<rparr>"
  using assms by (simp add: post_generate_text1_def)

theorem falsy_prompt_rejected_witness:
  "post_generate_text1 configured (always (says (JStr ''hi''))) saves 0 [] (JObj []) =
      ([], [], Replied \<lparr>code = 400, body = JObj [(''error'', JStr ''Prompt is required'')]\<rparr>)
    \<and> step configured (Request (JObj [])) (boot 0) =
        (boot 0)\<lparr>arrivals := Suc (arrivals (boot 0))\<rparr>
    \<and> post_generate_text1 configured (always (says (JStr ''hi''))) saves 0 []
        (JObj [(''prompt'', JStr '''')]) =
      ([], [], Replied \<lparr>code = 400, body = JObj [(''error'', JStr ''Prompt is required'')]\<rparr>)"
proof -
  have 1: "get_prop (JObj []) ''prompt'' = Inr JUndefined" "\<not> truthy JUndefined"
    by simp_all
  have 2: "get_prop (JObj [(''prompt'', JStr '''')]) ''prompt'' = Inr (JStr '''')" "\<not> truthy (JStr '''')"
    by simp_all
  show ?thesis
    using falsy_prompt_rejected [OF 1, of configured "always (says (JStr ''hi''))" saves 0 "[]" "boot 0"]
      falsy_prompt_rejected [OF 2, of configured "always (says (JStr ''hi''))" saves 0 "[]" "boot 0"]
    by simp
qed

lemma retries_first_other:
  assumes "k \<le> MAX_RETRIES" "\<forall>j<k. is_429 (up j)" "\<not> is_429 (up k)"
  shows "retries up 0 = k"
  using assms by (intro retries_eq) auto

lemma once_503:
  "generateTextFromGemini configured (always unavailable) (JStr ''hello'') 0 =
     ([Post (JStr ''hello'')], Inl \<lparr>name = ''AxiosError'',
       message = ''Request failed with status code 503'',
       response = Some \<lparr>status = 503, data = JStr ''overloaded''\<rparr>\<rparr>)"
proof -
  have "\<not> is_429 (always unavailable 0)"
    by (simp add: always_def unavailable_def is_429_def status_of_def)
  then have "retries (always unavailable) 0 = 0"
    by (simp add: retries_step MAX_RETRIES_def)
  then show ?thesis
    using generateTextFromGemini_eq [OF configured_key, of "always unavailable" "JStr ''hello''" 0]
    by (simp add: backoff_0 always_def unavailable_def is_429_def status_of_def attempt_def)
qed

lemma stored_only_after_success:
  assumes "post_generate_text1 env up db now docs req_body = (effects, docs', a)"
    and "docs' \<noteq> docs"
  shows "\<exists>p v. get_prop req_body ''prompt'' = Inr p \<and> truthy p \<and>
    generateTextFromGemini env up p 0 = (effects, Inr v)"
proof -
  from assms obtain p where p: "get_prop req_body ''prompt'' = Inr p" "truthy p"
    by (auto simp: post_generate_text1_def split: sum.splits if_splits)
  obtain es r where g: "generateTextFromGemini env up p 0 = (es, r)"
    by (cases "generateTextFromGemini env up p 0")
  from assms g have "es = effects" and d: "fst (after_queue db now docs p r) = docs'"
    by (simp_all add: route_unfold [OF p])
  from d assms(2) obtain v where "r = Inr v"
    by (cases r) (simp_all add: after_queue_error)
  with g p \<open>es = effects\<close> show ?thesis by blast
qed

text \<open>
  C7. When the request that ends the retry loop fails with anything but status 429 (the
  ones before it, if any, having met 429), the route answers with the status of the
  upstream response and with its body as \<^verbatim>\<open>details\<close>; when the failure carries no
  upstream response at all, it answers with a generic 500. Nothing is stored.
\<close>

theorem upstream_failure_passes_through:
  assumes "\<not> no_api_key env" "get_prop req_body ''prompt'' = Inr p" "truthy p"
    and "k \<le> MAX_RETRIES" "\<forall>j<k. is_429 (up j)"
    and "up k = Rejected e" "status_of e \<noteq> Some 429"
  shows "post_generate_text1 env up db now docs req_body =
    (backoff p 0 k @ [Post p], docs,
     Replied (case response e of
        Some r \<Rightarrow>
          \<lparr>code = status r,
           body = JObj [(''error'', JStr ''Gemini API Error''), (''details'', data r)]\<rparr>
      | None \<Rightarrow>
          \<lparr>code = 500,
           body = JObj [(''error'', JStr (if name e = ''MongoError'' then ''Database Error''
                    else ''Error generating response'')),
                  (''details'', JStr (message e))]\<rparr>))"
proof -
  have n: "\<not> is_429 (up k)"
    using assms(6,7) by (simp add: is_429_def)
  have "retries up 0 = k"
    using assms(4,5) n by (rule retries_first_other)
  then have "generateTextFromGemini env up p 0 = (backoff p 0 k @ [Post p], Inl e)"
    using generateTextFromGemini_eq [OF assms(1), of up p 0] n assms(6) by (simp add: attempt_def)
  moreover have "error_reply e = (case response e of
        Some r \<Rightarrow>
          \<lparr>code = status r,
           body = JObj [(''error'', JStr ''Gemini API Error''), (''details'', data r)]\<rparr>
      | None \<Rightarrow>
          \<lparr>code = 500,
           body = JObj [(''error'', JStr (if name e = ''MongoError'' then ''Database Error''
                    else ''Error generating response'')),
                  (''details'', JStr (message e))]\<rparr>)"
    using assms(7) by (simp add: error_reply_def split: option.splits)
  ultimately show ?thesis
    by (simp add: route_unfold [OF assms(2,3)] after_queue_error)
qed

theorem upstream_failure_passes_through_witness:
  "post_generate_text1 configured (once_429_then unavailable) saves 0 [] hello =
    ([Post (JStr ''hello''), SetTimeout 1000, Post (JStr ''hello'')], [],
     Replied \<lparr>code = 503,
       body = JObj [(''error'', JStr ''Gemini API Error''), (''details'', JStr ''overloaded'')]\<rparr>)"
proof -
  let ?e = "\<lparr>name = ''AxiosError'', message = ''Request failed with status code 503'',
     response = Some \<lparr>status = 503, data = JStr ''overloaded''\<rparr>\<rparr>"
  have 1: "(1::nat) \<le> MAX_RETRIES"
    by (simp add: MAX_RETRIES_def)
  have 2: "\<forall>j<1. is_429 (once_429_then unavailable j)"
    by (simp add: once_429_then_def too_many_requests_def is_429_def status_of_def)
  have 3: "once_429_then unavailable 1 = Rejected ?e"
    by (simp add: once_429_then_def unavailable_def)
  have 4: "status_of ?e \<noteq> Some 429"
    by (simp add: status_of_def)
  have 5: "backoff (JStr ''hello'') 0 1 = [Post (JStr ''hello''), SetTimeout 1000]"
    by (simp add: backoff_def INITIAL_RETRY_DELAY_def)
  show ?thesis
    using upstream_failure_passes_through [OF configured_key hello_prompt _ 1 2 3 4, of saves 0 "[]"] 5
    by simp
qed

text \<open>An exchange in which the first part of the upstream response carries no text.\<close>

lemma exchange_textless:
  "post_generate_text1 configured (always textless) saves 0 [] hello =
    ([Post (JStr ''hello'')],
     [\<lparr>role = ''user'', content = JStr ''hello'', intime = 0\<rparr>,
      \<lparr>role = ''Alan-Ai'', content = JUndefined, intime = 7\<rparr>],
     Replied \<lparr>code = 200, body = JObj [(''userInput'', JStr ''hello''), (''time'', JNum 0),
       (''gpt3Response'', JUndefined)]\<rparr>)"
proof -
  have "\<not> is_429 (always textless 0)"
    by (simp add: always_def textless_def is_429_def)
  then have "retries (always textless) 0 = 0"
    by (simp add: retries_step MAX_RETRIES_def)
  moreover have "attempt textless =
      Inr (JObj [(''choices'', JArr [JObj [(''message'', JObj [(''content'', JUndefined)])]])])"
    by (simp add: attempt_def textless_def read_response_def)
  ultimately have "generateTextFromGemini configured (always textless) (JStr ''hello'') 0 =
      ([Post (JStr ''hello'')],
       Inr (JObj [(''choices'', JArr [JObj [(''message'', JObj [(''content'', JUndefined)])]])]))"
    using generateTextFromGemini_eq [OF configured_key, of "always textless" "JStr ''hello''" 0]
    by (simp add: backoff_0 always_def textless_def is_429_def)
  then show ?thesis
    using route_unfold [OF hello_prompt, of configured "always textless" saves 0 "[]"]
    by (simp add: after_queue_returned saves_def)
qed

text \<open>
  C9. The claim is that the generated text of a successful reply is never undefined,
  because the upstream response is checked. The check of line 136 stops at
  \<^verbatim>\<open>candidates[0].content\<close>: an upstream response whose first part has no \<^verbatim>\<open>text\<close> passes
  it, the function returns \<^verbatim>\<open>undefined\<close> as content, and the route stores it and answers
  200 with an undefined \<^verbatim>\<open>gpt3Response\<close>.
\<close>

theorem textless_answer_gives_undefined:
  "post_generate_text1 configured (always textless) saves 0 [] hello =
    ([Post (JStr ''hello'')],
     [\<lparr>role = ''user'', content = JStr ''hello'', intime = 0\<rparr>,
      \<lparr>role = ''Alan-Ai'', content = JUndefined, intime = 7\<rparr>],
     Replied \<lparr>code = 200, body = JObj [(''userInput'', JStr ''hello''), (''time'', JNum 0),
       (''gpt3Response'', JUndefined)]\<rparr>)"
  by (rule exchange_textless)

text \<open>The ways a request to the route can end, and one exchange that goes well.\<close>

lemma after_queue_cases:
  assumes "after_queue db now docs p (Inr (JObj [(''choices'',
      JArr [JObj [(''message'', JObj [(''content'', g)])]])])) = (docs', r)"
  obtains (user_invalid) "cast_String p = None" "docs' = docs" "r = error_reply cast_failed"
  | (first_save_failed) c e where "cast_String p = Some c" "db 0 = SaveFailed e"
      "docs' = docs" "r = error_reply e"
  | (assistant_invalid) c t where "cast_String p = Some c" "db 0 = Saved t"
      "cast_String g = None"
      "docs' = docs @ [\<lparr>role = ''user'', content = c, intime = now\<rparr>]"
      "r = error_reply cast_failed"
  | (second_save_failed) c t c' e where "cast_String p = Some c" "db 0 = Saved t"
      "cast_String g = Some c'" "db 1 = SaveFailed e"
      "docs' = docs @ [\<lparr>role = ''user'', content = c, intime = now\<rparr>]" "r = error_reply e"
  | (saved) c t c' t' where "cast_String p = Some c" "db 0 = Saved t"
      "cast_String g = Some c'" "db 1 = Saved t'"
      "docs' = docs @ [\<lparr>role = ''user'', content = c, intime = now\<rparr>,
         \<lparr>role = ''Alan-Ai'', content = c', intime = now + int t\<rparr>]"
      "r = \<lparr>code = 200, body = JObj [(''userInput'', p), (''time'', JNum now),
         (''gpt3Response'', g)]\<rparr>"
  using assms unfolding after_queue_returned
  by (auto split: save_result.splits option.splits)

lemma route_cases:
  assumes "post_generate_text1 env up db now docs req_body = (effects, docs', a)"
  obtains (threw) e where "get_prop req_body ''prompt'' = Inl e" "docs' = docs" "a = Threw e"
  | (refused) p where "get_prop req_body ''prompt'' = Inr p" "\<not> truthy p" "docs' = docs"
      "a = Replied \<lparr>code = 400, body = JObj [(''error'', JStr ''Prompt is required'')]\<rparr>"
  | (failed) p e where "get_prop req_body ''prompt'' = Inr p" "truthy p"
      "generateTextFromGemini env up p 0 = (effects, Inl e)" "docs' = docs"
      "a = Replied (error_reply e)"
  | (returned) p g r where "get_prop req_body ''prompt'' = Inr p" "truthy p"
      "generateTextFromGemini env up p 0 = (effects, Inr (JObj [(''choices'',
         JArr [JObj [(''message'', JObj [(''content'', g)])]])]))"
      "after_queue db now docs p (Inr (JObj [(''choices'',
         JArr [JObj [(''message'', JObj [(''content'', g)])]])])) = (docs', r)"
      "a = Replied r"
proof (cases "get_prop req_body ''prompt''")
  case (Inl e)
  with assms threw show ?thesis by (simp add: post_generate_text1_def)
next
  case (Inr p)
  show ?thesis
  proof (cases "truthy p")
    case False
    with Inr assms refused show ?thesis by (simp add: post_generate_text1_def)
  next
    case True
    obtain es r where g: "generateTextFromGemini env up p 0 = (es, r)"
      by (cases "generateTextFromGemini env up p 0")
    from assms g have es: "es = effects"
      and d: "fst (after_queue db now docs p r) = docs'"
      and a: "a = Replied (snd (after_queue db now docs p r))"
      by (auto simp: route_unfold [OF Inr True])
    show ?thesis
    proof (cases r)
      case (Inl e)
      with g es a d failed [OF Inr True] show ?thesis by (simp add: after_queue_error)
    next
      case r: (Inr v)
      with g obtain c
        where v: "v = JObj [(''choices'', JArr [JObj [(''message'', JObj [(''content'', c)])]])]"
        using generateTextFromGemini_shape by blast
      from d have "after_queue db now docs p r = (docs', snd (after_queue db now docs p r))"
        by (simp add: prod_eq_iff)
      with returned [OF Inr True, of c] g es r v a show ?thesis by simp
    qed
  qed
qed

lemma says_hi:
  "generateTextFromGemini configured (always (says (JStr ''hi''))) (JStr ''hello'') 0 =
     ([Post (JStr ''hello'')],
      Inr (JObj [(''choices'', JArr [JObj [(''message'', JObj [(''content'', JStr ''hi'')])]])]))"
proof -
  have n: "\<not> is_429 (always (says (JStr ''hi'')) 0)"
    by (simp add: always_def says_def is_429_def)
  then have "retries (always (says (JStr ''hi''))) 0 = 0"
    by (simp add: retries_step MAX_RETRIES_def)
  moreover have "attempt (says (JStr ''hi'')) =
      Inr (JObj [(''choices'', JArr [JObj [(''message'', JObj [(''content'', JStr ''hi'')])]])])"
    by (simp add: attempt_def says_def read_response_def)
  ultimately show ?thesis
    using generateTextFromGemini_eq
      [OF configured_key, of "always (says (JStr ''hi''))" "JStr ''hello''" 0] n
    by (simp add: backoff_0) (simp add: always_def)
qed

lemma exchange_hi:
  "post_generate_text1 configured (always (says (JStr ''hi''))) saves 0 [] hello =
    ([Post (JStr ''hello'')],
     [\<lparr>role = ''user'', content = JStr ''hello'', intime = 0\<rparr>,
      \<lparr>role = ''Alan-Ai'', content = JStr ''hi'', intime = 7\<rparr>],
     Replied \<lparr>code = 200, body = JObj [(''userInput'', JStr ''hello''), (''time'', JNum 0),
       (''gpt3Response'', JStr ''hi'')]\<rparr>)"
  using route_unfold [OF hello_prompt, of configured "always (says (JStr ''hi''))" saves 0 "[]"]
  by (simp add: says_hi after_queue_returned saves_def)

text \<open>
  C5. When the route answers with the success reply of line 204, it has appended exactly
  two documents to the collection, first the user message holding the prompt (as text),
  then the message holding the generated text, each content being what the schema's cast
  makes of the value, and the second was stamped no earlier than the first, whose
  instant is the \<^verbatim>\<open>time\<close> of the reply.
\<close>

theorem success_appends_user_then_assistant:
  assumes "post_generate_text1 env up db now docs req_body =
    (effects, docs',
     Replied \<lparr>code = 200, body = JObj [(''userInput'', p), (''time'', t), (''gpt3Response'', g)]\<rparr>)"
  shows "\<exists>u a. docs' = docs @ [u, a]
    \<and> role u = ''user'' \<and> cast_String p = Some (content u) \<and> (\<exists>s. content u = JStr s)
    \<and> get_prop req_body ''prompt'' = Inr p
    \<and> role a = ''Alan-Ai'' \<and> cast_String g = Some (content a)
    \<and> intime u \<le> intime a \<and> t = JNum (intime u)"
  using assms
proof (cases rule: route_cases)
  case (failed q e)
  then show ?thesis by (metis answer.inject error_reply_not_success)
next
  case (returned q c r)
  from returned(4) show ?thesis
  proof (cases rule: after_queue_cases)
    case user_invalid
    with returned(5) show ?thesis by (metis answer.inject error_reply_not_success)
  next
    case (first_save_failed c e)
    with returned(5) show ?thesis by (metis answer.inject error_reply_not_success)
  next
    case (assistant_invalid c t)
    with returned(5) show ?thesis by (metis answer.inject error_reply_not_success)
  next
    case (second_save_failed c t c' e)
    with returned(5) show ?thesis by (metis answer.inject error_reply_not_success)
  next
    case (saved c1 t1 c2 t2)
    with returned(1,2,5) cast_String_truthy [of q c1] show ?thesis by auto
  qed
qed simp_all

theorem success_appends_user_then_assistant_witness:
  "\<exists>u a. [\<lparr>role = ''user'', content = JStr ''hello'', intime = 0\<rparr>,
      \<lparr>role = ''Alan-Ai'', content = JStr ''hi'', intime = 7\<rparr>] = [] @ [u, a]
    \<and> role u = ''user'' \<and> cast_String (JStr ''hello'') = Some (content u)
    \<and> (\<exists>s. content u = JStr s)
    \<and> get_prop hello ''prompt'' = Inr (JStr ''hello'')
    \<and> role a = ''Alan-Ai'' \<and> cast_String (JStr ''hi'') = Some (content a)
    \<and> intime u \<le> intime a \<and> JNum 0 = JNum (intime u)"
  by (rule success_appends_user_then_assistant [OF exchange_hi])

text \<open>
  C4, as stated: every document appended has a role among \<^verbatim>\<open>user\<close> and \<^verbatim>\<open>assistant\<close>, a
  text content and a timestamp, and the second document of an exchange has role
  \<^verbatim>\<open>assistant\<close>. The role fails on the exchange above: line 198 writes the role
  \<^verbatim>\<open>Alan-Ai\<close>, and the schema of line 82 takes any string. The text content fails for the
  second document of the exchange in which the upstream's first part carries no text:
  its content is not set.
\<close>

theorem stored_role_is_Alan_Ai_and_content_may_be_unset:
  "map role
     (fst (snd (post_generate_text1 configured (always (says (JStr ''hi''))) saves 0 [] hello)))
     = [''user'', ''Alan-Ai'']
   \<and> ''Alan-Ai'' \<noteq> ''user'' \<and> ''Alan-Ai'' \<noteq> ''assistant''
   \<and> map content
     (fst (snd (post_generate_text1 configured (always textless) saves 0 [] hello)))
     = [JStr ''hello'', JUndefined]"
  by (simp add: exchange_hi exchange_textless)

text \<open>
  C4, amended: every document a request appends has a role among \<^verbatim>\<open>user\<close> and
  \<^verbatim>\<open>Alan-Ai\<close>, a timestamp no earlier than the instant at which the route resumed, and a
  content that is text (the schema's cast sees to it) whenever it is set, which is always
  so for the user message; the documents of one request are at most two, the first with
  role \<^verbatim>\<open>user\<close> and the second with role \<^verbatim>\<open>Alan-Ai\<close>. What the second document holds
  when the upstream supplies no text is the matter of C9 and is left out here.
\<close>

theorem roles_are_user_and_Alan_Ai:
  assumes "post_generate_text1 env up db now docs req_body = (effects, docs', a)"
  shows "\<exists>new. docs' = docs @ new
    \<and> map role new = take (length new) [''user'', ''Alan-Ai'']
    \<and> (\<forall>d\<in>set new. role d \<in> {''user'', ''Alan-Ai''} \<and> now \<le> intime d
          \<and> ((\<exists>s. content d = JStr s)
             \<or> role d = ''Alan-Ai'' \<and> (content d = JUndefined \<or> content d = JNull)))"
  using assms
proof (cases rule: route_cases)
  case (returned q g r)
  from returned(4) show ?thesis
  proof (cases rule: after_queue_cases)
    case (assistant_invalid c t)
    with returned(2) cast_String_truthy [of q c] show ?thesis by auto
  next
    case (second_save_failed c t c' e)
    with returned(2) cast_String_truthy [of q c] show ?thesis by auto
  next
    case (saved c t c' t')
    with returned(2) cast_String_truthy [of q c] cast_String_text [of g c'] show ?thesis
      by auto
  qed simp_all
qed simp_all

theorem roles_are_user_and_Alan_Ai_witness:
  "\<exists>new. [\<lparr>role = ''user'', content = JStr ''hello'', intime = 0\<rparr>,
      \<lparr>role = ''Alan-Ai'', content = JStr ''hi'', intime = 7\<rparr>] = [] @ new
    \<and> map role new = take (length new) [''user'', ''Alan-Ai'']
    \<and> (\<forall>d\<in>set new. role d \<in> {''user'', ''Alan-Ai''} \<and> 0 \<le> intime d
          \<and> ((\<exists>s. content d = JStr s)
             \<or> role d = ''Alan-Ai'' \<and> (content d = JUndefined \<or> content d = JNull)))"
  by (rule roles_are_user_and_Alan_Ai [OF exchange_hi])

text \<open>
  C10, as stated, ends on: an error response implies that no user message was stored.
  That fails when the upstream call succeeds, the first save succeeds and the second one
  throws: the route answers with an error and the user message stays in the collection.
\<close>

theorem failed_second_save_keeps_user_message:
  "post_generate_text1 configured (always (says (JStr ''hi''))) second_save_fails 0 [] hello =
    ([Post (JStr ''hello'')],
     [\<lparr>role = ''user'', content = JStr ''hello'', intime = 0\<rparr>],
     Replied \<lparr>code = 500, body = JObj [(''error'', JStr ''Error generating response''),
       (''details'', JStr ''connection closed'')]\<rparr>)"
  using route_unfold [OF hello_prompt, of configured "always (says (JStr ''hi''))"
      second_save_fails 0 "[]"]
  by (simp add: says_hi after_queue_returned second_save_fails_def error_reply_def
      status_of_def)

text \<open>
  C10, amended: when the upstream call of a request fails, after its retries if any, the
  route stores nothing, neither the user message nor the assistant message, and answers
  with the reply of its \<^verbatim>\<open>catch\<close> block, which is never the reply of the success path: an
  error response to a request whose upstream call failed implies that no user message
  was stored.
\<close>

theorem failed_upstream_stores_nothing:
  assumes "get_prop req_body ''prompt'' = Inr p" "truthy p"
    and "generateTextFromGemini env up p 0 = (effects, Inl e)"
  shows "post_generate_text1 env up db now docs req_body =
      (effects, docs, Replied (error_reply e))
    \<and> error_reply e \<noteq> \<lparr>code = 200, body = JObj [(''userInput'', p), (''time'', JNum now),
         (''gpt3Response'', g)]\<rparr>"
  using assms(3) error_reply_not_success [of e]
  by (simp add: route_unfold [OF assms(1,2)] after_queue_error)

theorem failed_upstream_stores_nothing_witness:
  "post_generate_text1 configured (always unavailable) saves 0 [] hello =
     ([Post (JStr ''hello'')], [],
      Replied \<lparr>code = 503,
       body = JObj [(''error'', JStr ''Gemini API Error''), (''details'', JStr ''overloaded'')]\<rparr>)"
  using failed_upstream_stores_nothing [OF hello_prompt _ once_503, of saves 0 "[]"]
  by (simp add: error_reply_def status_of_def)

section \<open>The invariant of the queue\<close>

text \<open>
  Every event keeps the invariant: the flag is set exactly while one invocation of
  \<^verbatim>\<open>processQueue\<close> is suspended, so a second one returns at line 24; the completion time
  recorded at line 37 is only moved by the one invocation that is in the upstream call.
\<close>

lemma sound_boot: "sound (boot t0)"
  by (simp add: sound_def boot_def throttled_def sequential_def)

lemma sound_Tick: "sound s \<Longrightarrow> sound (step env (Tick dt) s)"
  unfolding sound_def by fastforce

lemma sound_processQueue: "sound s \<Longrightarrow> sound (processQueue s)"
  unfolding processQueue_def sound_def
  by (auto simp: Let_def split: list.splits)

lemma sound_Request: "sound s \<Longrightarrow> sound (step env (Request b) s)"
proof -
  assume s: "sound s"
  have 1: "sound (s\<lparr>arrivals := Suc (arrivals s)\<rparr>)"
    using s by (simp add: sound_def)
  have 2: "sound (s\<lparr>arrivals := Suc (arrivals s), requestQueue := q\<rparr>)" for q
    using s by (simp add: sound_def)
  show ?thesis
    using 1 2 by (auto simp: Let_def split: sum.splits intro!: sound_processQueue)
qed

lemma sound_TimerFires: "sound s \<Longrightarrow> sound (step env (TimerFires i) s)"
proof -
  assume s: "sound s"
  show ?thesis
  proof (cases "i < length (workers s)")
    case False
    with s show ?thesis by simp
  next
    case True
    with s obtain w where w: "workers s = [w]" "i = 0"
      by (cases "workers s") (auto simp: sound_def)
    show ?thesis
    proof (cases w)
      case (InFlight j since)
      with s w show ?thesis by simp
    next
      case (Throttled j due)
      with s w show ?thesis
        by (fastforce simp: sound_def Let_def)
    qed
  qed
qed


lemma timeline_bounds:
  "timeline r x k t es = (cs, t') \<Longrightarrow>
     t \<le> t' \<and> (\<forall>c\<in>set cs. t \<le> sent c \<and> finished c \<le> t') \<and> sequential cs"
proof (induction r x k t es arbitrary: cs t' rule: timeline.induct)
  case (1 r x k t)
  then show ?case by (simp add: sequential_def)
next
  case (2 r x k t p es)
  obtain cs0 t0 where rest: "timeline r x k (t + int (took (x k))) es = (cs0, t0)"
    by (cases "timeline r x k (t + int (took (x k))) es")
  from "2.IH" [OF rest] "2.prems" rest show ?case
    by (fastforce simp: sequential_def)
next
  case (3 r x k t d es)
  from "3.IH" [of cs t'] "3.prems" show ?case
    by fastforce
qed

lemma is_429_fails: "is_429 r \<Longrightarrow> \<exists>e. attempt r = Inl e"
  using attempt_429 [of r] by auto

lemma timeline_backoff:
  assumes "\<forall>j<n. is_429 (result (x (k + j)))"
    and "timeline r x k t (backoff p k n @ [Post p]) = (cs, t')"
  shows "throttled cs \<and>
    ((\<exists>c\<in>set cs. ok c) \<longrightarrow> (\<exists>v. attempt (result (x (k + n))) = Inr v))"
  using assms
proof (induction n arbitrary: k t cs t')
  case 0
  then show ?case
    by (auto simp: backoff_0 throttled_def split: sum.splits)
next
  case (Suc n)
  let ?t = "t + int (took (x k)) + int (INITIAL_RETRY_DELAY * 2 ^ k) + int (late (x k))"
  obtain cs0 t0
    where rest: "timeline r x (Suc k) ?t (backoff p (Suc k) n @ [Post p]) = (cs0, t0)"
    by (cases "timeline r x (Suc k) ?t (backoff p (Suc k) n @ [Post p])")
  have "\<forall>j<n. is_429 (result (x (Suc k + j)))"
    using Suc.prems(1) by auto
  from Suc.IH [OF this rest]
  have ih: "throttled cs0"
    "(\<exists>c\<in>set cs0. ok c) \<longrightarrow> (\<exists>v. attempt (result (x (k + Suc n))) = Inr v)"
    by simp_all
  have "is_429 (result (x k))"
    using Suc.prems(1) by (auto dest: spec [of _ 0])
  then obtain e where e: "attempt (result (x k)) = Inl e"
    using is_429_fails by blast
  from Suc.prems(2) rest e
  have "cs = \<lparr>request = r, retry = k, sent = t, finished = t + int (took (x k)),
      ok = False\<rparr> # cs0"
    by (auto simp: backoff_Suc)
  with ih show ?case
    by (simp add: throttled_def)
qed

lemma sound_settle:
  assumes s: "sound s" and w: "workers s = [InFlight j since]"
  shows "sound (settle env x 0 j since s)"
proof -
  let ?up = "\<lambda>k. result (x k)"
  obtain effects r where g: "generateTextFromGemini env ?up (prompt j) 0 = (effects, r)"
    by (cases "generateTextFromGemini env ?up (prompt j) 0")
  obtain cs t' where tl: "timeline (rid j) x 0 since effects = (cs, t')"
    by (cases "timeline (rid j) x 0 since effects")
  note b = timeline_bounds [OF tl]
  have new: "throttled cs \<and> ((\<exists>c\<in>set cs. ok c) \<longrightarrow> (\<exists>v. r = Inr v))"
  proof (cases "no_api_key env")
    case True
    with g have "effects = []"
      by (subst (asm) generateTextFromGemini.simps) simp
    with tl show ?thesis by (simp add: throttled_def)
  next
    case False
    let ?n = "retries ?up 0"
    from g generateTextFromGemini_eq [OF False, of ?up "prompt j" 0]
    have eff: "effects = backoff (prompt j) 0 ?n @ [Post (prompt j)]"
      and r: "r = (if is_429 (?up ?n) then Inl rate_limit_exceeded else attempt (?up ?n))"
      by auto
    have "\<forall>k<?n. is_429 (result (x (0 + k)))"
      using retries_429 [of _ ?up 0] by simp
    from timeline_backoff [OF this tl [unfolded eff]]
    have "throttled cs" "(\<exists>c\<in>set cs. ok c) \<longrightarrow> (\<exists>v. attempt (?up ?n) = Inr v)"
      by simp_all
    moreover have "\<not> is_429 (?up ?n)" if "attempt (?up ?n) = Inr v" for v
      using that is_429_fails [of "?up ?n"] by auto
    ultimately show ?thesis using r by auto
  qed
  let ?now = "max (clock s) t'"
  let ?s4 = "s\<lparr>clock := ?now, calls := calls s @ cs,
    lastRequestTime := (case r of Inl e \<Rightarrow> lastRequestTime s | Inr v \<Rightarrow> ?now),
    outcomes := outcomes s @ [(rid j, r)], isProcessing := False, workers := []\<rparr>"
  have old: "\<forall>c\<in>set (calls s). finished c \<le> since"
    "lastRequestTime s + RATE_LIMIT_DELAY \<le> since"
    "\<forall>c\<in>set (calls s). ok c \<longrightarrow> finished c \<le> lastRequestTime s"
    "throttled (calls s)" "sequential (calls s)"
    using s w by (simp_all add: sound_def)
  have D: "0 \<le> RATE_LIMIT_DELAY"
    by (simp add: RATE_LIMIT_DELAY_def)
  have s4: "sound ?s4"
    unfolding sound_def
  proof (intro conjI)
    show "\<forall>c\<in>set (calls ?s4). finished c \<le> clock ?s4"
      using old b by fastforce
    show "\<forall>c\<in>set (calls ?s4). ok c \<longrightarrow> finished c \<le> lastRequestTime ?s4"
      using old b new D by (cases r) fastforce+
    show "throttled (calls ?s4)"
      using old b new D by (fastforce simp: throttled_def sorted_wrt_append)
    show "sequential (calls ?s4)"
      using old b by (fastforce simp: sequential_def sorted_wrt_append)
  qed simp_all
  have "settle env x 0 j since s = (if requestQueue ?s4 \<noteq> [] then processQueue ?s4 else ?s4)"
    using g tl w by (cases r) (simp_all add: settle_def Let_def)
  with s4 show ?thesis
    by (simp add: sound_processQueue)
qed

lemma sound_Settles: "sound s \<Longrightarrow> sound (step env (Settles i x) s)"
proof -
  assume s: "sound s"
  show ?thesis
  proof (cases "i < length (workers s)")
    case False
    with s show ?thesis by simp
  next
    case True
    with s obtain w where w: "workers s = [w]" "i = 0"
      by (cases "workers s") (auto simp: sound_def)
    show ?thesis
    proof (cases w)
      case (Throttled j due)
      with s w show ?thesis by simp
    next
      case (InFlight j since)
      with s w sound_settle [of s j since env x] show ?thesis by simp
    qed
  qed
qed

lemma sound_step: "sound s \<Longrightarrow> sound (step env e s)"
  by (cases e) (simp_all only: sound_Tick sound_Request sound_TimerFires sound_Settles)

lemma sound_run: "sound s \<Longrightarrow> sound (run env es s)"
  by (induction es arbitrary: s) (simp_all add: sound_step)

section \<open>The order of service\<close>

lemma service_processQueue: "sound s \<Longrightarrow> service_order (processQueue s) = service_order s"
  unfolding processQueue_def sound_def service_order_def
  by (auto simp: Let_def split: list.splits)

lemma arrivals_processQueue: "arrivals (processQueue s) = arrivals s"
  unfolding processQueue_def
  by (auto simp: Let_def split: list.splits)

lemma settle_unfold:
  assumes "generateTextFromGemini env (\<lambda>k. result (x k)) (prompt j) 0 = (effects, r)"
    and "timeline (rid j) x 0 since effects = (cs, t')"
    and "workers s = [InFlight j since]"
  shows "settle env x 0 j since s =
    (let s4 = s\<lparr>clock := max (clock s) t', calls := calls s @ cs,
       lastRequestTime :=
         (case r of Inl e \<Rightarrow> lastRequestTime s | Inr v \<Rightarrow> max (clock s) t'),
       outcomes := outcomes s @ [(rid j, r)], isProcessing := False, workers := []\<rparr>
     in if requestQueue s4 \<noteq> [] then processQueue s4 else s4)"
  using assms by (cases r) (simp_all add: settle_def Let_def)

lemma service_settle:
  assumes "workers s = [InFlight j since]"
  shows "service_order (settle env x 0 j since s) = service_order s
    \<and> arrivals (settle env x 0 j since s) = arrivals s"
proof -
  let ?up = "\<lambda>k. result (x k)"
  obtain effects r where g: "generateTextFromGemini env ?up (prompt j) 0 = (effects, r)"
    by (cases "generateTextFromGemini env ?up (prompt j) 0")
  obtain cs t' where tl: "timeline (rid j) x 0 since effects = (cs, t')"
    by (cases "timeline (rid j) x 0 since effects")
  show ?thesis
    unfolding settle_unfold [OF g tl assms]
    using assms
    by (auto simp: Let_def processQueue_def service_order_def split: list.splits)
qed

lemma service_step:
  assumes "sound s"
  shows "service_order (step env e s) = service_order s @ accepted (arrivals s) [e]
    \<and> arrivals (step env e s) = (case e of Request b \<Rightarrow> Suc (arrivals s) | _ \<Rightarrow> arrivals s)"
proof (cases e)
  case (Tick dt)
  then show ?thesis by (simp add: service_order_def)
next
  case (Request b)
  have q: "sound (s\<lparr>arrivals := Suc (arrivals s), requestQueue := q\<rparr>)" for q
    using assms by (simp add: sound_def)
  show ?thesis
    using Request
    by (auto simp: Let_def service_processQueue [OF q] arrivals_processQueue
        split: sum.splits) (simp_all add: service_order_def)
next
  case (TimerFires i)
  show ?thesis
  proof (cases "i < length (workers s)")
    case False
    with TimerFires show ?thesis by simp
  next
    case True
    with assms obtain w where w: "workers s = [w]" "i = 0"
      by (cases "workers s") (auto simp: sound_def)
    with TimerFires show ?thesis
      by (cases w) (simp_all add: service_order_def Let_def)
  qed
next
  case (Settles i x)
  show ?thesis
  proof (cases "i < length (workers s)")
    case False
    with Settles show ?thesis by simp
  next
    case True
    with assms obtain w where w: "workers s = [w]" "i = 0"
      by (cases "workers s") (auto simp: sound_def)
    with Settles show ?thesis
      by (cases w) (simp_all add: service_settle)
  qed
qed

lemma accepted_Cons:
  "accepted n (e # es) =
     accepted n [e] @ accepted (case e of Request b \<Rightarrow> Suc n | _ \<Rightarrow> n) es"
  by (cases e) (auto split: sum.splits)

lemma service_run:
  "sound s \<Longrightarrow> service_order (run env es s) = service_order s @ accepted (arrivals s) es"
proof (induction es arbitrary: s)
  case Nil
  then show ?case by simp
next
  case (Cons e es)
  from Cons.IH [OF sound_step [OF Cons.prems], of env e] service_step [OF Cons.prems, of env e]
  show ?case
    by (subst accepted_Cons) simp
qed

text \<open>
  The server is never idle with a request waiting, an invocation that settles hands over
  to the head of the queue, and on a schedule without new arrivals every pending request
  is settled, in the order of service.
\<close>

lemma busy_processQueue:
  "(isProcessing s \<longrightarrow> workers s \<noteq> []) \<Longrightarrow>
     workers (processQueue s) = [] \<longrightarrow> requestQueue (processQueue s) = []"
  unfolding processQueue_def
  by (auto simp: Let_def split: list.splits)

lemma processQueue_idle:
  assumes "\<not> isProcessing s" "workers s = []" "requestQueue s = j # rest"
  shows "map job_of (workers (processQueue s)) = [j]
    \<and> requestQueue (processQueue s) = rest
    \<and> outcomes (processQueue s) = outcomes s"
  using assms unfolding processQueue_def
  by (simp add: Let_def)

lemma settle_hands_over:
  assumes "workers s = [InFlight j since]"
  shows "outcomes (settle env x 0 j since s) =
      outcomes s @ [(rid j, snd (generateTextFromGemini env (\<lambda>k. result (x k)) (prompt j) 0))]
    \<and> (case requestQueue s of
          [] \<Rightarrow> workers (settle env x 0 j since s) = []
            \<and> requestQueue (settle env x 0 j since s) = []
            \<and> \<not> isProcessing (settle env x 0 j since s)
        | j' # rest \<Rightarrow> map job_of (workers (settle env x 0 j since s)) = [j']
            \<and> requestQueue (settle env x 0 j since s) = rest)"
proof -
  let ?up = "\<lambda>k. result (x k)"
  obtain effects r where g: "generateTextFromGemini env ?up (prompt j) 0 = (effects, r)"
    by (cases "generateTextFromGemini env ?up (prompt j) 0")
  obtain cs t' where tl: "timeline (rid j) x 0 since effects = (cs, t')"
    by (cases "timeline (rid j) x 0 since effects")
  show ?thesis
    unfolding settle_unfold [OF g tl assms]
    using g by (auto simp: Let_def processQueue_def split: list.splits)
qed

lemma busy_step:
  assumes "sound s" "workers s = [] \<longrightarrow> requestQueue s = []"
  shows "workers (step env e s) = [] \<longrightarrow> requestQueue (step env e s) = []"
proof (cases e)
  case (Tick dt)
  with assms show ?thesis by simp
next
  case (Request b)
  have "isProcessing s \<longrightarrow> workers s \<noteq> []"
    using assms(1) by (simp add: sound_def)
  then show ?thesis
    using Request assms(2)
    by (auto simp: Let_def split: sum.splits dest!: busy_processQueue [rotated, THEN mp, rotated])
next
  case (TimerFires i)
  with assms show ?thesis
    by (auto simp: Let_def split: worker.splits)
next
  case (Settles i x)
  show ?thesis
  proof (cases "i < length (workers s)")
    case False
    with Settles assms show ?thesis by simp
  next
    case True
    with assms obtain w where w: "workers s = [w]" "i = 0"
      by (cases "workers s") (auto simp: sound_def)
    show ?thesis
    proof (cases w)
      case (Throttled j due)
      with Settles w assms show ?thesis by simp
    next
      case (InFlight j since)
      with Settles w settle_hands_over [of s j since env x] show ?thesis
        by (auto split: list.splits)
    qed
  qed
qed

lemma busy_run:
  "sound s \<Longrightarrow> workers s = [] \<longrightarrow> requestQueue s = [] \<Longrightarrow>
     workers (run env es s) = [] \<longrightarrow> requestQueue (run env es s) = []"
proof (induction es arbitrary: s)
  case Nil
  then show ?case by simp
next
  case (Cons e es)
  show ?case
    using Cons.IH [OF sound_step [OF Cons.prems(1), of env e] busy_step [OF Cons.prems, of env e]]
    by simp
qed


lemma idle_noop:
  "workers s = [] \<Longrightarrow> run env [TimerFires 0, Settles 0 x] s = s"
  by simp

lemma round_settles_one:
  assumes "sound s" "workers s \<noteq> []"
  shows "pending (run env [TimerFires 0, Settles 0 x] s) = pending s - 1"
proof -
  from assms obtain w where w: "workers s = [w]"
    by (cases "workers s") (auto simp: sound_def)
  obtain j since where f: "workers (step env (TimerFires 0) s) = [InFlight j since]"
    and q: "requestQueue (step env (TimerFires 0) s) = requestQueue s"
    using w by (cases w) (auto simp: Let_def)
  let ?s1 = "step env (TimerFires 0) s"
  have "run env [TimerFires 0, Settles 0 x] s = settle env x 0 j since ?s1"
    using f by simp
  moreover have "pending (settle env x 0 j since ?s1) = length (requestQueue ?s1)"
    using settle_hands_over [OF f, of env x]
    by (cases "requestQueue ?s1") (auto simp: pending_def dest: arg_cong [of _ _ length])
  ultimately show ?thesis
    using w q by (simp add: pending_def)
qed

lemma drain_Cons: "drain (x # xs) = [TimerFires 0, Settles 0 x] @ drain xs"
  by (simp add: drain_def)

lemma run_append: "run env (es @ es') s = run env es' (run env es s)"
  by (induction es arbitrary: s) simp_all

lemma drained:
  assumes "sound s" "workers s = [] \<longrightarrow> requestQueue s = []" "pending s \<le> length xs"
  shows "requestQueue (run env (drain xs) s) = []
    \<and> workers (run env (drain xs) s) = []
    \<and> map fst (outcomes (run env (drain xs) s)) = service_order s"
  using assms
proof (induction xs arbitrary: s)
  case Nil
  then show ?case
    by (simp add: drain_def pending_def service_order_def)
next
  case (Cons x xs)
  let ?s1 = "run env [TimerFires 0, Settles 0 x] s"
  have s1: "sound ?s1"
    by (rule sound_run [OF Cons.prems(1)])
  have b1: "workers ?s1 = [] \<longrightarrow> requestQueue ?s1 = []"
    by (rule busy_run [OF Cons.prems(1,2)])
  have o1: "service_order ?s1 = service_order s"
    using service_run [OF Cons.prems(1), of env "[TimerFires 0, Settles 0 x]"] by simp
  have p1: "pending ?s1 \<le> length xs"
  proof (cases "workers s = []")
    case True
    with Cons.prems(2,3) show ?thesis by (simp add: pending_def)
  next
    case False
    with round_settles_one [OF Cons.prems(1) False, of env x] Cons.prems(3) show ?thesis
      by simp
  qed
  from Cons.IH [OF s1 b1 p1] o1 show ?case
    by (simp only: drain_Cons run_append)
qed


text \<open>
  Every call sent after a call for which \<^verbatim>\<open>generateTextFromGemini\<close> returned is sent at
  least \<^verbatim>\<open>RATE_LIMIT_DELAY\<close> after that call had finished: line 37 records the completion
  and lines 30-34 wait for the rest of the interval.
\<close>

lemma calls_after_return_are_throttled: "throttled (calls (run env es (boot t0)))"
  using sound_run [OF sound_boot, of env es t0] by (simp add: sound_def)

text \<open>
  Concrete runs: a request that is retried once (the retry follows after the backoff
  delay of line 156), and two requests served in turn.
\<close>

lemma via_promptly:
  "generateTextFromGemini env (\<lambda>k. result (promptly up k)) p rc =
     generateTextFromGemini env up p rc"
  by (simp add: promptly_def)

lemma hi_after_429:
  "generateTextFromGemini configured (once_429_then (says (JStr ''hi''))) (JStr ''hello'') 0 =
     ([Post (JStr ''hello''), SetTimeout 1000, Post (JStr ''hello'')],
      Inr (JObj [(''choices'', JArr [JObj [(''message'', JObj [(''content'', JStr ''hi'')])]])]))"
proof -
  let ?up = "once_429_then (says (JStr ''hi''))"
  have 1: "(0::nat) + 1 \<le> MAX_RETRIES" by (simp add: MAX_RETRIES_def)
  have 2: "\<forall>j<1. is_429 (?up (0 + j))"
    by (simp add: once_429_then_def too_many_requests_def is_429_def status_of_def)
  have 3: "\<not> is_429 (?up (0 + 1))"
    by (simp add: once_429_then_def says_def is_429_def)
  have "retries ?up 0 = 1"
    using 1 2 3 by (rule retries_eq)
  moreover have "attempt (?up 1) =
      Inr (JObj [(''choices'', JArr [JObj [(''message'', JObj [(''content'', JStr ''hi'')])]])])"
    by (simp add: once_429_then_def attempt_def says_def read_response_def)
  ultimately show ?thesis
    using generateTextFromGemini_eq [OF configured_key, of ?up "JStr ''hello''" 0] 3
    by (simp add: backoff_def INITIAL_RETRY_DELAY_def)
qed

lemma retry_run:
  "calls (run configured
      [Request hello, Settles 0 (promptly (once_429_then (says (JStr ''hi''))))] (boot 10000)) =
    [\<lparr>request = 0, retry = 0, sent = 10000, finished = 10000, ok = False\<rparr>,
     \<lparr>request = 0, retry = 1, sent = 11000, finished = 11000, ok = True\<rparr>]"
  by (simp add: boot_def hello_def processQueue_def RATE_LIMIT_DELAY_def Let_def settle_def
      via_promptly hi_after_429)
    (simp add: promptly_def once_429_then_def attempt_def says_def read_response_def
      too_many_requests_def)

lemma via_taking:
  "generateTextFromGemini env (\<lambda>k. result (taking ms up k)) p rc =
     generateTextFromGemini env up p rc"
  by (simp add: taking_def)

lemma two_requests_state:
  "run configured [Request hello, Request hello] (boot 10000) =
    \<lparr>clock = 10000, lastRequestTime = 0, isProcessing = True,
     requestQueue = [\<lparr>rid = 1, prompt = JStr ''hello''\<rparr>],
     workers = [InFlight \<lparr>rid = 0, prompt = JStr ''hello''\<rparr> 10000], arrivals = 2,
     calls = [], outcomes = []\<rparr>"
  by (simp add: boot_def hello_def processQueue_def RATE_LIMIT_DELAY_def Let_def)

lemma two_requests_drained:
  "run configured
      (drain [promptly (always (says (JStr ''hi''))), promptly (always (says (JStr ''hi'')))])
      (run configured [Request hello, Request hello] (boot 10000)) =
    \<lparr>clock = 15000, lastRequestTime = 15000, isProcessing = False, requestQueue = [],
     workers = [], arrivals = 2,
     calls = [\<lparr>request = 0, retry = 0, sent = 10000, finished = 10000, ok = True\<rparr>,
       \<lparr>request = 1, retry = 0, sent = 15000, finished = 15000, ok = True\<rparr>],
     outcomes =
       [(0, Inr (JObj [(''choices'',
           JArr [JObj [(''message'', JObj [(''content'', JStr ''hi'')])]])])),
        (1, Inr (JObj [(''choices'',
           JArr [JObj [(''message'', JObj [(''content'', JStr ''hi'')])]])]))]\<rparr>"
  unfolding two_requests_state
  by (simp add: drain_def processQueue_def RATE_LIMIT_DELAY_def Let_def settle_def
      via_promptly says_hi)
    (simp add: promptly_def always_def attempt_def says_def read_response_def)

section \<open>Claims about the queue\<close>

text \<open>
  C8. In every state the server can reach, whatever the requests, the timing and the
  behaviour of the upstream: at most one invocation of \<^verbatim>\<open>processQueue\<close> is suspended, and
  the flag \<^verbatim>\<open>isProcessing\<close> is set exactly then; no request to the upstream is sent before
  every earlier one has come back, so at most one is in flight; the requests settled,
  being processed and still waiting are, together and in this order, exactly the accepted
  arrivals in the order of arrival; the server is never idle while a request waits; when
  the upstream call of the invocation in flight settles, the promise of its request is
  settled with what \<^verbatim>\<open>generateTextFromGemini\<close> gave and the head of the queue is taken
  next; and once nothing arrives any more, as many rounds as there are pending requests
  empty the queue, every accepted request having been settled in the order of arrival.
\<close>

theorem one_at_a_time_in_arrival_order:
  assumes "s = run env es (boot t0)"
  shows "length (workers s) \<le> 1
    \<and> isProcessing s = (workers s \<noteq> [])
    \<and> sequential (calls s)
    \<and> service_order s = accepted 0 es
    \<and> (workers s = [] \<longrightarrow> requestQueue s = [])
    \<and> (\<forall>j since x. workers s = [InFlight j since] \<longrightarrow>
          outcomes (step env (Settles 0 x) s) =
            outcomes s @
              [(rid j, snd (generateTextFromGemini env (\<lambda>k. result (x k)) (prompt j) 0))]
          \<and> (case requestQueue s of
                [] \<Rightarrow> workers (step env (Settles 0 x) s) = []
              | j' # rest \<Rightarrow>
                  map job_of (workers (step env (Settles 0 x) s)) = [j']
                  \<and> requestQueue (step env (Settles 0 x) s) = rest))
    \<and> (\<forall>xs. pending s \<le> length xs \<longrightarrow>
          requestQueue (run env (drain xs) s) = []
          \<and> workers (run env (drain xs) s) = []
          \<and> map fst (outcomes (run env (drain xs) s)) = accepted 0 es)"
proof -
  have snd: "sound s"
    unfolding assms by (rule sound_run [OF sound_boot])
  have ord: "service_order s = accepted 0 es"
    unfolding assms
    using service_run [OF sound_boot, of env es t0] by (simp add: service_order_def boot_def)
  have busy: "workers s = [] \<longrightarrow> requestQueue s = []"
    unfolding assms
    by (rule busy_run [OF sound_boot]) (simp add: boot_def)
  have hand: "outcomes (step env (Settles 0 x) s) =
            outcomes s @
              [(rid j, snd (generateTextFromGemini env (\<lambda>k. result (x k)) (prompt j) 0))]
          \<and> (case requestQueue s of
                [] \<Rightarrow> workers (step env (Settles 0 x) s) = []
              | j' # rest \<Rightarrow>
                  map job_of (workers (step env (Settles 0 x) s)) = [j']
                  \<and> requestQueue (step env (Settles 0 x) s) = rest)"
    if "workers s = [InFlight j since]" for j since x
    using settle_hands_over [OF that, of env x] that
    by (auto split: list.splits)
  have "requestQueue (run env (drain xs) s) = []
          \<and> workers (run env (drain xs) s) = []
          \<and> map fst (outcomes (run env (drain xs) s)) = accepted 0 es"
    if "pending s \<le> length xs" for xs
    using drained [OF snd busy that, of env] ord by simp
  with snd ord busy hand show ?thesis
    by (simp add: sound_def)
qed

theorem one_at_a_time_in_arrival_order_witness:
  "service_order (run configured [Request hello, Request hello] (boot 10000)) = [0, 1]
   \<and> map fst (outcomes (run configured
        (drain [promptly (always (says (JStr ''hi''))), promptly (always (says (JStr ''hi'')))])
        (run configured [Request hello, Request hello] (boot 10000)))) = [0, 1]
   \<and> requestQueue (run configured
        (drain [promptly (always (says (JStr ''hi''))), promptly (always (says (JStr ''hi'')))])
        (run configured [Request hello, Request hello] (boot 10000))) = []"
proof -
  have p: "pending (run configured [Request hello, Request hello] (boot 10000))
      \<le> length [promptly (always (says (JStr ''hi''))), promptly (always (says (JStr ''hi'')))]"
    unfolding two_requests_state by (simp add: pending_def)
  have a: "accepted 0 [Request hello, Request hello] = [0, 1]"
    by (simp add: hello_def)
  from one_at_a_time_in_arrival_order [OF refl, of configured "[Request hello, Request hello]" 10000] p a
  show ?thesis by auto
qed

text \<open>
  C3. The claim is that the calls made to the upstream for queued requests are at least
  \<^verbatim>\<open>RATE_LIMIT_DELAY\<close> = 5000 ms apart, from the completion of one to the start of the
  next; line 13 says the same (5 seconds between requests). The completion is recorded
  at line 37 only, which is skipped when \<^verbatim>\<open>generateTextFromGemini\<close> throws. Of three
  queued requests whose second fails with status 503, the second is sent 5000 ms after
  the first came back, and the third is sent the moment the second has failed.
\<close>

theorem failed_request_does_not_delay_next:
  "calls (run configured
      [Request hello, Request hello, Request hello,
       Settles 0 (taking 200 (always (says (JStr ''hi'')))), TimerFires 0,
       Settles 0 (taking 200 (always unavailable)),
       Settles 0 (taking 200 (always (says (JStr ''hi''))))] (boot 10000)) =
    [\<lparr>request = 0, retry = 0, sent = 10000, finished = 10200, ok = True\<rparr>,
     \<lparr>request = 1, retry = 0, sent = 15200, finished = 15400, ok = False\<rparr>,
     \<lparr>request = 2, retry = 0, sent = 15400, finished = 15600, ok = True\<rparr>]
   \<and> \<not> spaced
    [\<lparr>request = 0, retry = 0, sent = 10000, finished = 10200, ok = True\<rparr>,
     \<lparr>request = 1, retry = 0, sent = 15200, finished = 15400, ok = False\<rparr>,
     \<lparr>request = 2, retry = 0, sent = 15400, finished = 15600, ok = True\<rparr>]"
  by (simp add: boot_def hello_def processQueue_def RATE_LIMIT_DELAY_def Let_def settle_def
      via_taking says_hi once_503 spaced_def)
    (simp add: taking_def always_def attempt_def says_def read_response_def unavailable_def)

end
